theory Spec2Isabelle
  imports Complex_Main "HOL-Library.AList"
begin

section \<open>Numbers\<close>

text \<open>
  The router computes with JavaScript numbers. Finite values are modelled as reals
  (rounding is not modelled); the only non-finite value the code produces on purpose is
  \<open>Infinity\<close>, used for unknown distances and impassable edges.
\<close>

datatype num = Fin real | Infinity

fun num_add :: "num \<Rightarrow> num \<Rightarrow> num" where
  "num_add (Fin a) (Fin b) = Fin (a + b)"
| "num_add _ _ = Infinity"

fun num_less :: "num \<Rightarrow> num \<Rightarrow> bool" where
  "num_less (Fin a) (Fin b) = (a < b)"
| "num_less (Fin a) Infinity = True"
| "num_less Infinity _ = False"

fun num_le :: "num \<Rightarrow> num \<Rightarrow> bool" where
  "num_le (Fin a) (Fin b) = (a \<le> b)"
| "num_le _ Infinity = True"
| "num_le Infinity (Fin b) = False"

fun is_finite :: "num \<Rightarrow> bool" where
  "is_finite (Fin a) = True"
| "is_finite Infinity = False"

section \<open>JavaScript objects\<close>

text \<open>
  A JavaScript object used as a dictionary is a list of key/value pairs in the order in which
  the language enumerates them (\<open>Object.keys\<close>, \<open>Object.values\<close>, \<open>for ... in\<close>): first
  the keys that are array indices (canonical decimal numerals below \<open>2^32 - 1\<close>) in ascending
  numeric order, then all other keys in the order of their insertion.
\<close>

type_synonym 'v obj = "(string \<times> 'v) list"

definition is_digit :: "char \<Rightarrow> bool" where
  "is_digit c = (c \<in> set ''0123456789'')"

definition digit_val :: "char \<Rightarrow> nat" where
  "digit_val c = of_char c - 48"

definition digit_char :: "nat \<Rightarrow> char" where
  "digit_char d = ''0123456789'' ! d"

fun show_nat :: "nat \<Rightarrow> string" where
  "show_nat n = (if n < 10 then [digit_char n] else show_nat (n div 10) @ [digit_char (n mod 10)])"

declare show_nat.simps [simp del]

lemma show_nat_small: "n < 10 \<Longrightarrow> show_nat n = [digit_char n]"
  by (simp add: show_nat.simps)

lemma show_nat_large:
  "\<not> n < 10 \<Longrightarrow> show_nat n = show_nat (n div 10) @ [digit_char (n mod 10)]"
  by (subst show_nat.simps) simp

definition str_to_nat :: "string \<Rightarrow> nat" where
  "str_to_nat s = foldl (\<lambda>a c. 10 * a + digit_val c) 0 s"

definition array_index :: "string \<Rightarrow> nat option" where
  "array_index s =
     (if s \<noteq> [] \<and> list_all is_digit s \<and> (hd s \<noteq> CHR ''0'' \<or> length s = 1)
         \<and> str_to_nat s < 4294967295
      then Some (str_to_nat s) else None)"

definition key_before :: "string \<Rightarrow> string \<Rightarrow> bool" where
  "key_before k k' =
     (case array_index k of
        None \<Rightarrow> False
      | Some i \<Rightarrow> (case array_index k' of None \<Rightarrow> True | Some j \<Rightarrow> i < j))"

fun obj_insert :: "string \<Rightarrow> 'v \<Rightarrow> 'v obj \<Rightarrow> 'v obj" where
  "obj_insert k v [] = [(k, v)]"
| "obj_insert k v ((k', v') # r) =
     (if key_before k k' then (k, v) # (k', v') # r else (k', v') # obj_insert k v r)"

fun obj_replace :: "string \<Rightarrow> 'v \<Rightarrow> 'v obj \<Rightarrow> 'v obj" where
  "obj_replace k v [] = []"
| "obj_replace k v ((k', v') # r) =
     (if k = k' then (k, v) # r else (k', v') # obj_replace k v r)"

text \<open>\<open>o[k] = v\<close>: an existing key keeps its place, a new key is placed by the order above.\<close>

definition obj_put :: "string \<Rightarrow> 'v \<Rightarrow> 'v obj \<Rightarrow> 'v obj" where
  "obj_put k v ob = (if k \<in> fst ` set ob then obj_replace k v ob else obj_insert k v ob)"

text \<open>\<open>delete o[k]\<close>.\<close>

definition obj_delete :: "string \<Rightarrow> 'v obj \<Rightarrow> 'v obj" where
  "obj_delete k ob = filter (\<lambda>e. fst e \<noteq> k) ob"

text \<open>
  \<open>o[k]\<close> is \<open>map_of o k\<close>, with \<open>None\<close> for \<open>undefined\<close>. Only the properties an object
  owns are modelled. A name that every object inherits (\<open>constructor\<close>, \<open>toString\<close>,
  \<open>valueOf\<close>, \<open>hasOwnProperty\<close>, \<open>__proto__\<close> and the like) is looked up in the code as a
  function or an object, not as \<open>undefined\<close>; such names are outside the model. The keys a
  build uses are the graph ids \<open>osm_\<close>\<open>n\<close>, the decimal ids of the map data, and the road
  classes that \<open>isValidRoadWay\<close> admits, and none of them is such a name.
\<close>

definition obj_keys :: "'v obj \<Rightarrow> string list" where
  "obj_keys ob = map fst ob"

definition obj_values :: "'v obj \<Rightarrow> 'v list" where
  "obj_values ob = map snd ob"

section \<open>Geometry and map data\<close>

record Point =
  latitude :: real
  longitude :: real

text \<open>
  The functions of the routers that measure distances take the distance function as a
  parameter, named \<open>calculateDistance\<close> or \<open>haversineDistance\<close> as the method they call.
  The method itself is the haversine formula, \<open>calculateDistance_haversine\<close> below;
  \<open>haversineDistance\<close> of \<open>Eyy/utils/dijkstra.ts\<close> is the same formula. \<open>flat_distance\<close>
  is a simple stand-in, used to run the model on concrete data.
\<close>

definition flat_distance :: "Point \<Rightarrow> Point \<Rightarrow> real" where
  "flat_distance p q = \<bar>latitude q - latitude p\<bar> + \<bar>longitude q - longitude p\<bar>"

text \<open>
  \<open>Math.atan2(y, x)\<close> on real arguments; zero carries no sign here, and the value at
  \<open>(0, 0)\<close> is 0.
\<close>

definition Math_atan2 :: "real \<Rightarrow> real \<Rightarrow> real" where
  "Math_atan2 y x =
     (if x > 0 then arctan (y / x)
      else if x < 0 then (if y \<ge> 0 then arctan (y / x) + pi else arctan (y / x) - pi)
      else if y > 0 then pi / 2
      else if y < 0 then - (pi / 2)
      else 0)"

text \<open>
  \<open>calculateDistance\<close>, in metres. \<open>haversine_a\<close> is its intermediate value \<open>a\<close>, the
  argument of the two square roots. \<open>Math.sqrt\<close> is \<open>NaN\<close> below zero; both arguments lie
  between 0 and 1 (\<open>haversine_a_range\<close> below), so the real square root stands for it.
\<close>

definition haversine_a :: "Point \<Rightarrow> Point \<Rightarrow> real" where
  "haversine_a point1 point2 =
     (let phi1 = (latitude point1 * pi) / 180;
          phi2 = (latitude point2 * pi) / 180;
          dphi = ((latitude point2 - latitude point1) * pi) / 180;
          dlambda = ((longitude point2 - longitude point1) * pi) / 180
      in sin (dphi / 2) * sin (dphi / 2) +
         cos phi1 * cos phi2 * sin (dlambda / 2) * sin (dlambda / 2))"

definition calculateDistance_haversine :: "Point \<Rightarrow> Point \<Rightarrow> real" where
  "calculateDistance_haversine point1 point2 =
     (let R = 6371000;
          a = haversine_a point1 point2;
          c = 2 * Math_atan2 (sqrt a) (sqrt (1 - a))
      in R * c)"

type_synonym tags = "string obj"

record OSMNode =
  osm_id :: nat
  lat :: real
  lon :: real

record OSMWay =
  way_id :: nat
  way_nodes :: "nat list"
  way_tags :: tags

text \<open>The elements of a map-data response: nodes, ways, and anything else.\<close>

datatype element =
  NodeElement nat real real
| WayElement nat "nat list" tags
| OtherElement

text \<open>A tag is present (truthy) when it is defined and not the empty string.\<close>

definition tag :: "tags \<Rightarrow> string \<Rightarrow> string option" where
  "tag ts k = (case map_of ts k of Some v \<Rightarrow> (if v = [] then None else Some v) | None \<Rightarrow> None)"

text \<open>The template string \<open>`osm_${id}`\<close>.\<close>

definition osm_key :: "nat \<Rightarrow> string" where
  "osm_key n = ''osm_'' @ show_nat n"

section \<open>The weighted road graph\<close>

record GraphNode =
  ident :: string
  point :: Point
  neighbors :: "num obj"

record PathFinder =
  nodes :: "GraphNode obj"
  osmNodes :: "OSMNode obj"
  osmWays :: "OSMWay obj"
  isInitialized :: bool

definition ROAD_TYPES_MOTORWAY :: "string list" where
  "ROAD_TYPES_MOTORWAY = [''motorway'', ''motorway_link'']"

definition validRoadTypes :: "string list" where
  "validRoadTypes =
     [''motorway'', ''motorway_link'', ''trunk'', ''trunk_link'', ''primary'', ''primary_link'',
      ''secondary'', ''secondary_link'', ''tertiary'', ''tertiary_link'',
      ''residential'', ''unclassified'', ''living_street'', ''service'']"

definition DEFAULT_SPEEDS :: "(string \<times> real) list" where
  "DEFAULT_SPEEDS =
     [(''motorway'', 100), (''trunk'', 80), (''primary'', 60), (''secondary'', 50),
      (''tertiary'', 40), (''residential'', 30), (''service'', 20), (''unclassified'', 30),
      (''living_street'', 15)]"

definition AVERAGE_SPEED_KMH :: real where "AVERAGE_SPEED_KMH = 40"

text \<open>
  \<open>addNode\<close> of the weighted router: an id already in the graph is left alone.
\<close>

definition addNode :: "string \<Rightarrow> Point \<Rightarrow> PathFinder \<Rightarrow> PathFinder" where
  "addNode i p s =
     (case map_of (nodes s) i of
        None \<Rightarrow> s\<lparr>nodes := obj_put i \<lparr>ident = i, point = p, neighbors = []\<rparr> (nodes s)\<rparr>
      | Some n \<Rightarrow> s)"

text \<open>
  \<open>addNode\<close> of the earlier router in \<open>Eyy/utils/pathfinding.ts\<close>: the node is stored
  without a test.
\<close>

definition addNode_pathfinding :: "string \<Rightarrow> Point \<Rightarrow> PathFinder \<Rightarrow> PathFinder" where
  "addNode_pathfinding i p s =
     s\<lparr>nodes := obj_put i \<lparr>ident = i, point = p, neighbors = []\<rparr> (nodes s)\<rparr>"

text \<open>
  \<open>addEdge\<close>: nothing happens unless both ends are nodes; otherwise the directed weight
  from the first to the second is set.
\<close>

definition addEdge :: "string \<Rightarrow> string \<Rightarrow> num \<Rightarrow> PathFinder \<Rightarrow> PathFinder" where
  "addEdge node1Id node2Id weight s =
     (case (map_of (nodes s) node1Id, map_of (nodes s) node2Id) of
        (Some node1, Some node2) \<Rightarrow>
          s\<lparr>nodes := obj_put node1Id (node1\<lparr>neighbors := obj_put node2Id weight (neighbors node1)\<rparr>)
                        (nodes s)\<rparr>
      | _ \<Rightarrow> s)"

text \<open>
  \<open>parseInt\<close> without a radix: leading white space is skipped, a sign is read, a prefix
  \<open>0x\<close> selects base 16, and the longest run of digits is the value; \<open>None\<close> stands for
  \<open>NaN\<close>.
\<close>

definition is_space :: "char \<Rightarrow> bool" where
  "is_space c = ((of_char c :: nat) \<in> {9, 10, 11, 12, 13, 32})"

definition digit_of :: "nat \<Rightarrow> char \<Rightarrow> nat option" where
  "digit_of radix c =
     (let n = (of_char c :: nat);
          v = (if 48 \<le> n \<and> n \<le> 57 then Some (n - 48)
               else if 97 \<le> n \<and> n \<le> 122 then Some (n - 87)
               else if 65 \<le> n \<and> n \<le> 90 then Some (n - 55)
               else None)
      in case v of Some d \<Rightarrow> (if d < radix then Some d else None) | None \<Rightarrow> None)"

definition parseInt :: "string \<Rightarrow> int option" where
  "parseInt str =
     (let s = dropWhile is_space str;
          neg = (s \<noteq> [] \<and> hd s = CHR ''-'');
          s1 = (if s \<noteq> [] \<and> (hd s = CHR ''-'' \<or> hd s = CHR ''+'') then tl s else s);
          hex = (take 2 s1 = ''0x'' \<or> take 2 s1 = ''0X'');
          radix = (if hex then 16 else 10);
          s2 = (if hex then drop 2 s1 else s1);
          z = takeWhile (\<lambda>c. digit_of radix c \<noteq> None) s2;
          v = foldl (\<lambda>a c. radix * a + (case digit_of radix c of Some d \<Rightarrow> d | None \<Rightarrow> 0)) 0 z
      in if z = [] then None else Some (if neg then - int v else int v))"

text \<open>
  \<open>getSpeedLimit\<close>, in km/h: a parseable positive \<open>maxspeed\<close> tag, else the default of the
  road class, else the city average. The table of defaults is read by the keys it owns, which
  is what the code does for every road class that \<open>isValidRoadWay\<close> admits.
\<close>

definition getSpeedLimit :: "tags \<Rightarrow> real" where
  "getSpeedLimit ts =
     (let tagged =
            (case tag ts ''maxspeed'' of
               None \<Rightarrow> None
             | Some m \<Rightarrow>
                 (case parseInt m of
                    None \<Rightarrow> None
                  | Some speed \<Rightarrow> (if speed > 0 then Some (real_of_int speed) else None)))
      in case tagged of
           Some v \<Rightarrow> v
         | None \<Rightarrow>
             (let roadType = (case tag ts ''highway'' of Some h \<Rightarrow> h | None \<Rightarrow> ''unclassified'')
              in case map_of DEFAULT_SPEEDS roadType of
                   Some v \<Rightarrow> v
                 | None \<Rightarrow> AVERAGE_SPEED_KMH))"

definition isOneWayStreet :: "tags \<Rightarrow> string \<Rightarrow> bool" where
  "isOneWayStreet ts roadType =
     (map_of ts ''oneway'' = Some ''yes'' \<or>
      map_of ts ''junction'' = Some ''roundabout'' \<or>
      roadType \<in> set ROAD_TYPES_MOTORWAY)"

definition isValidRoadWay :: "nat list \<Rightarrow> tags \<Rightarrow> bool" where
  "isValidRoadWay ns ts =
     (case tag ts ''highway'' of
        None \<Rightarrow> False
      | Some roadType \<Rightarrow> (if length ns < 2 then False else roadType \<in> set validRoadTypes))"

text \<open>
  The weight of a segment in seconds: its length in metres over the effective speed in
  metres per second, or \<open>Infinity\<close> when that speed is not positive.
\<close>

definition edgeWeight :: "real \<Rightarrow> real \<Rightarrow> num" where
  "edgeWeight distance speedLimit =
     (let effectiveSpeedMps = speedLimit * 1000 / 3600
      in if effectiveSpeedMps > 0 then Fin (distance / effectiveSpeedMps) else Infinity)"

text \<open>
  The same computation with its division made observable: \<open>checked_div\<close> reports a zero
  divisor instead of returning a number.
\<close>

datatype fault = DivisionByZero

definition checked_div :: "real \<Rightarrow> real \<Rightarrow> fault + real" where
  "checked_div a b = (if b = 0 then Inl DivisionByZero else Inr (a / b))"

definition edgeWeight_checked :: "real \<Rightarrow> real \<Rightarrow> fault + num" where
  "edgeWeight_checked distance speedLimit =
     (let effectiveSpeedMps = speedLimit * 1000 / 3600
      in if effectiveSpeedMps > 0
         then (case checked_div distance effectiveSpeedMps of
                 Inl f \<Rightarrow> Inl f
               | Inr t \<Rightarrow> Inr (Fin t))
         else Inr Infinity)"

text \<open>
  The body of the loop over the consecutive node pairs of a way in \<open>buildGraphFromOSM\<close>.
\<close>

definition osm_point :: "OSMNode \<Rightarrow> Point" where
  "osm_point n = \<lparr>latitude = lat n, longitude = lon n\<rparr>"

definition addSegment ::
  "(Point \<Rightarrow> Point \<Rightarrow> real) \<Rightarrow> real \<Rightarrow> bool \<Rightarrow> nat \<times> nat \<Rightarrow> PathFinder \<Rightarrow> PathFinder" where
  "addSegment calculateDistance speedLimit isOneWay seg s =
     (let node1Id = osm_key (fst seg); node2Id = osm_key (snd seg)
      in case map_of (osmNodes s) (show_nat (fst seg)) of
           None \<Rightarrow> s
         | Some node1Osm \<Rightarrow>
             (case map_of (osmNodes s) (show_nat (snd seg)) of
                None \<Rightarrow> s
              | Some node2Osm \<Rightarrow>
                  (if map_of (nodes s) node1Id = None \<or> map_of (nodes s) node2Id = None then s
                   else
                     (let distance = calculateDistance (osm_point node1Osm) (osm_point node2Osm);
                          weight = edgeWeight distance speedLimit
                      in if isOneWay then addEdge node1Id node2Id weight s
                         else addEdge node2Id node1Id weight (addEdge node1Id node2Id weight s)))))"

definition addWay :: "(Point \<Rightarrow> Point \<Rightarrow> real) \<Rightarrow> OSMWay \<Rightarrow> PathFinder \<Rightarrow> PathFinder" where
  "addWay calculateDistance way s =
     (case tag (way_tags way) ''highway'' of
        None \<Rightarrow> s
      | Some roadType \<Rightarrow>
          (let speedLimit = getSpeedLimit (way_tags way);
               isOneWay = isOneWayStreet (way_tags way) roadType
           in fold (addSegment calculateDistance speedLimit isOneWay)
                   (zip (way_nodes way) (tl (way_nodes way))) s))"

section \<open>The connectivity pass\<close>

text \<open>
  The traversal of \<open>validateGraphConnectivity\<close>: \<open>visit\<close> is the body of the loop over the
  neighbours of the current node, \<open>bfs\<close> the loop over the queue. The visited set is kept
  in the order of insertion.
\<close>

definition visit :: "string \<Rightarrow> string list \<times> string list \<Rightarrow> string list \<times> string list" where
  "visit neighborId qv =
     (if neighborId \<in> set (snd qv) then qv
      else (fst qv @ [neighborId], snd qv @ [neighborId]))"

definition neighbor_ids :: "GraphNode obj \<Rightarrow> string set" where
  "neighbor_ids g = (\<Union>e \<in> set g. fst ` set (neighbors (snd e)))"

lemma fold_visit_snd: "set (snd (fold visit ns qv)) = set (snd qv) \<union> set ns"
  by (induction ns arbitrary: qv) (auto simp: visit_def)

lemma fold_visit_same: "set ns \<subseteq> set (snd qv) \<Longrightarrow> fold visit ns qv = qv"
  by (induction ns arbitrary: qv) (auto simp: visit_def)

lemma map_of_neighbor_ids:
  "map_of g c = Some n \<Longrightarrow> fst ` set (neighbors n) \<subseteq> neighbor_ids g"
  by (force simp: neighbor_ids_def dest: map_of_SomeD)

function bfs :: "GraphNode obj \<Rightarrow> string list \<Rightarrow> string list \<Rightarrow> string list" where
  "bfs g [] visited = visited"
| "bfs g (currentId # queue) visited =
     (case map_of g currentId of
        None \<Rightarrow> bfs g queue visited
      | Some currentNode \<Rightarrow>
          bfs g (fst (fold visit (obj_keys (neighbors currentNode)) (queue, visited)))
                (snd (fold visit (obj_keys (neighbors currentNode)) (queue, visited))))"
  by pat_completeness auto
termination
proof (relation "inv_image (less_than <*lex*> less_than)
          (\<lambda>(g, q, v). (card (neighbor_ids g - set v), length q))", goal_cases)
  case 1
  show ?case by (intro wf_inv_image wf_lex_prod wf_less_than)
next
  case (2 g currentId queue visited)
  then show ?case by simp
next
  case (3 g currentId queue visited currentNode)
  let ?ns = "obj_keys (neighbors currentNode)"
  have fin: "finite (neighbor_ids g)" by (simp add: neighbor_ids_def)
  have sub: "set ?ns \<subseteq> neighbor_ids g"
    using map_of_neighbor_ids [OF 3] by (simp add: obj_keys_def)
  show ?case
  proof (cases "set ?ns \<subseteq> set visited")
    case True
    then have "fold visit ?ns (queue, visited) = (queue, visited)"
      by (simp add: fold_visit_same)
    then show ?thesis by simp
  next
    case False
    then obtain x where x: "x \<in> set ?ns" "x \<notin> set visited" by blast
    have "neighbor_ids g - set (snd (fold visit ?ns (queue, visited)))
            \<subset> neighbor_ids g - set visited"
      using x sub by (auto simp: fold_visit_snd)
    then have "card (neighbor_ids g - set (snd (fold visit ?ns (queue, visited))))
            < card (neighbor_ids g - set visited)"
      using fin by (intro psubset_card_mono) auto
    then show ?thesis by (simp add: case_prod_beta)
  qed
qed

text \<open>A weight is truthy unless it is undefined or zero.\<close>

fun truthy_num :: "num option \<Rightarrow> bool" where
  "truthy_num None = False"
| "truthy_num (Some (Fin r)) = (r \<noteq> 0)"
| "truthy_num (Some Infinity) = True"

text \<open>
  The removal of one unreached node: the node is deleted, and so is every truthy entry for
  it in the neighbour maps of the nodes that remain.
\<close>

definition removeIsolated :: "string \<Rightarrow> GraphNode obj \<Rightarrow> GraphNode obj" where
  "removeIsolated i g =
     map (\<lambda>e. (fst e,
                if truthy_num (map_of (neighbors (snd e)) i)
                then (snd e)\<lparr>neighbors := obj_delete i (neighbors (snd e))\<rparr>
                else snd e))
         (obj_delete i g)"

definition validateGraphConnectivity :: "PathFinder \<Rightarrow> PathFinder" where
  "validateGraphConnectivity s =
     (case obj_keys (nodes s) of
        [] \<Rightarrow> s
      | startNodeId # rest \<Rightarrow>
          (if startNodeId = [] then s
           else
             (let visited = bfs (nodes s) [startNodeId] [startNodeId];
                  isolatedNodes = filter (\<lambda>i. i \<notin> set visited) (obj_keys (nodes s))
              in s\<lparr>nodes := fold removeIsolated isolatedNodes (nodes s)\<rparr>)))"

section \<open>Building the graph from map data\<close>

definition buildGraphFromOSM :: "(Point \<Rightarrow> Point \<Rightarrow> real) \<Rightarrow> PathFinder \<Rightarrow> PathFinder" where
  "buildGraphFromOSM calculateDistance s =
     (let s1 = fold (\<lambda>osmNode. addNode (osm_key (osm_id osmNode)) (osm_point osmNode))
                    (obj_values (osmNodes s)) s;
          s2 = fold (addWay calculateDistance) (obj_values (osmWays s1)) s1
      in validateGraphConnectivity s2)"

definition processElement :: "element \<Rightarrow> PathFinder \<Rightarrow> PathFinder" where
  "processElement e s =
     (case e of
        NodeElement i la lo \<Rightarrow>
          s\<lparr>osmNodes := obj_put (show_nat i) \<lparr>osm_id = i, lat = la, lon = lo\<rparr> (osmNodes s)\<rparr>
      | WayElement i ns ts \<Rightarrow>
          (if isValidRoadWay ns ts
           then s\<lparr>osmWays := obj_put (show_nat i) \<lparr>way_id = i, way_nodes = ns, way_tags = ts\<rparr>
                                 (osmWays s)\<rparr>
           else s)
      | OtherElement \<Rightarrow> s)"

definition processOSMData :: "(Point \<Rightarrow> Point \<Rightarrow> real) \<Rightarrow> element list \<Rightarrow> PathFinder \<Rightarrow> PathFinder" where
  "processOSMData calculateDistance elements s =
     (let s0 = s\<lparr>osmNodes := [], osmWays := [], nodes := []\<rparr>;
          s1 = fold processElement elements s0;
          s2 = buildGraphFromOSM calculateDistance s1
      in s2\<lparr>isInitialized := True\<rparr>)"

text \<open>A router as constructed: empty and not initialized.\<close>

definition newPathFinder :: PathFinder where
  "newPathFinder = \<lparr>nodes = [], osmNodes = [], osmWays = [], isInitialized = False\<rparr>"


section \<open>The nearest-node search\<close>












section \<open>The router built on the dijkstra helper\<close>

text \<open>
  The second \<open>PathFinder\<close> class of \<open>Eyy/utils/dijkstra.ts\<close>: its nodes list their
  neighbours without weights, and its graph is keyed by the decimal node ids.
\<close>

record RoadNode =
  r_ident :: string
  r_point :: Point
  r_neighbors :: "string list"

record OverpassWay =
  ow_id :: nat
  ow_nodes :: "nat list"
  ow_tags :: tags

record HelperFinder =
  h_nodes :: "RoadNode obj"
  h_ways :: "OverpassWay list"
  h_osmNodes :: "OSMNode obj"
  initialized :: bool
  lastFetchCenter :: "Point option"
  lastFetchRadius :: real

definition addNeighbor :: "string \<Rightarrow> string \<Rightarrow> RoadNode obj \<Rightarrow> RoadNode obj" where
  "addNeighbor a b graph =
     (case map_of graph a of
        None \<Rightarrow> graph
      | Some n \<Rightarrow>
          (if b \<in> set (r_neighbors n) then graph
           else obj_put a (n\<lparr>r_neighbors := r_neighbors n @ [b]\<rparr>) graph))"

text \<open>The body of the loop over the consecutive node pairs of a way in \<open>buildGraph\<close>.\<close>

definition connectSegment :: "bool \<Rightarrow> nat \<times> nat \<Rightarrow> RoadNode obj \<Rightarrow> RoadNode obj" where
  "connectSegment isOneWay seg graph =
     (let currentNodeId = show_nat (fst seg); nextNodeId = show_nat (snd seg)
      in if map_of graph currentNodeId \<noteq> None \<and> map_of graph nextNodeId \<noteq> None
         then (let g1 = addNeighbor currentNodeId nextNodeId graph
               in if \<not> isOneWay then addNeighbor nextNodeId currentNodeId g1 else g1)
         else graph)"

definition connectWay :: "OverpassWay \<Rightarrow> RoadNode obj \<Rightarrow> RoadNode obj" where
  "connectWay way graph =
     (let isOneWay = (map_of (ow_tags way) ''oneway'' = Some ''yes'')
      in fold (connectSegment isOneWay) (zip (ow_nodes way) (tl (ow_nodes way))) graph)"

definition initialGraph :: "OSMNode obj \<Rightarrow> RoadNode obj" where
  "initialGraph osm =
     fold (\<lambda>e g. obj_put (fst e)
                    \<lparr>r_ident = fst e, r_point = osm_point (snd e), r_neighbors = []\<rparr> g)
          osm []"

definition keepConnected :: "RoadNode obj \<Rightarrow> RoadNode obj" where
  "keepConnected graph =
     fold (\<lambda>e ns. if length (r_neighbors (snd e)) > 0 then obj_put (fst e) (snd e) ns else ns)
          graph []"

definition buildGraph :: "HelperFinder \<Rightarrow> HelperFinder" where
  "buildGraph s =
     (let graph = fold connectWay (h_ways s) (initialGraph (h_osmNodes s))
      in s\<lparr>h_nodes := keepConnected graph\<rparr>)"

definition processOverpassElement :: "element \<Rightarrow> HelperFinder \<Rightarrow> HelperFinder" where
  "processOverpassElement e s =
     (case e of
        NodeElement i la lo \<Rightarrow>
          s\<lparr>h_osmNodes := obj_put (show_nat i) \<lparr>osm_id = i, lat = la, lon = lo\<rparr> (h_osmNodes s)\<rparr>
      | WayElement i ns ts \<Rightarrow>
          (if length ns > 1
           then s\<lparr>h_ways := h_ways s @ [\<lparr>ow_id = i, ow_nodes = ns, ow_tags = ts\<rparr>]\<rparr>
           else s)
      | OtherElement \<Rightarrow> s)"

definition processOverpassData :: "element list \<Rightarrow> HelperFinder \<Rightarrow> HelperFinder" where
  "processOverpassData elements s =
     buildGraph (fold processOverpassElement elements (s\<lparr>h_osmNodes := [], h_ways := []\<rparr>))"

text \<open>The demo network: a grid of \<open>gridSize\<close> by \<open>gridSize\<close> nodes around the centre.\<close>

definition gridSize :: nat where "gridSize = 5"

definition gridStep :: real where "gridStep = 0.001"

definition grid_key :: "nat \<Rightarrow> nat \<Rightarrow> string" where
  "grid_key i j = show_nat i @ ''-'' @ show_nat j"

definition demoNeighbors :: "nat \<Rightarrow> nat \<Rightarrow> string list" where
  "demoNeighbors i j =
     (if i > 0 then [grid_key (i - 1) j] else []) @
     (if i < gridSize - 1 then [grid_key (i + 1) j] else []) @
     (if j > 0 then [grid_key i (j - 1)] else []) @
     (if j < gridSize - 1 then [grid_key i (j + 1)] else [])"

definition demoNode :: "Point \<Rightarrow> nat \<Rightarrow> nat \<Rightarrow> RoadNode" where
  "demoNode center i j =
     \<lparr>r_ident = grid_key i j,
      r_point = \<lparr>latitude = latitude center + (real i - real gridSize / 2) * gridStep,
                 longitude = longitude center + (real j - real gridSize / 2) * gridStep\<rparr>,
      r_neighbors = demoNeighbors i j\<rparr>"

definition createDemoNetwork :: "Point \<Rightarrow> HelperFinder \<Rightarrow> HelperFinder" where
  "createDemoNetwork center s =
     s\<lparr>h_nodes :=
         fold (\<lambda>i ns. fold (\<lambda>j ns'. obj_put (grid_key i j) (demoNode center i j) ns')
                         [0..<gridSize] ns)
              [0..<gridSize] [],
       initialized := True\<rparr>"

text \<open>
  \<open>fetchRoadNetwork\<close>: everything inside its \<open>try\<close> block either completes or fails; a
  failure of any kind is caught and answered with the demo network.
\<close>

datatype fetch_outcome = FetchFailed | FetchOk "element list"

definition fetchRoadNetwork_helper ::
  "(Point \<Rightarrow> Point \<Rightarrow> real) \<Rightarrow> fetch_outcome \<Rightarrow> Point \<Rightarrow> real \<Rightarrow> HelperFinder \<Rightarrow> HelperFinder" where
  "fetchRoadNetwork_helper haversineDistance outcome center radius s =
     (if initialized s \<and>
         (case lastFetchCenter s of
            None \<Rightarrow> False
          | Some c \<Rightarrow> haversineDistance center c < radius * 0.5) \<and>
         radius \<le> lastFetchRadius s
      then s
      else
        (case outcome of
           FetchOk elements \<Rightarrow>
             (processOverpassData elements s)
               \<lparr>initialized := True, lastFetchCenter := Some center, lastFetchRadius := radius\<rparr>
         | FetchFailed \<Rightarrow> createDemoNetwork center s))"


section \<open>The dijkstra helper\<close>

text \<open>
  \<open>dijkstra(graph, startNode, endNode)\<close> of \<open>Eyy/utils/dijkstra.ts\<close>. The graph maps a
  node to its neighbours and their distances. The queue holds the pushed nodes with the
  distance they were pushed with; it is sorted (stably, by distance) before every removal.
\<close>

type_synonym dgraph = "(real obj) obj"

record dstate =
  distances :: "num obj"
  previous :: "(string option) obj"
  priorityQueue :: "(string \<times> real) list"

text \<open>
  The body of the loop over the neighbours of the current node. A comparison with an
  undefined distance is false, so a neighbour that is not a key of the graph is skipped.
\<close>

definition relax :: "string \<Rightarrow> string \<times> real \<Rightarrow> dstate \<Rightarrow> dstate" where
  "relax currentNode e st =
     (case map_of (distances st) currentNode of
        Some (Fin dc) \<Rightarrow>
          (let distance = dc + snd e
           in case map_of (distances st) (fst e) of
                Some dn \<Rightarrow>
                  (if num_less (Fin distance) dn
                   then st\<lparr>distances := obj_put (fst e) (Fin distance) (distances st),
                           previous := obj_put (fst e) (Some currentNode) (previous st),
                           priorityQueue := priorityQueue st @ [(fst e, distance)]\<rparr>
                   else st)
              | None \<Rightarrow> st)
      | _ \<Rightarrow> st)"

definition neighborsOf :: "dgraph \<Rightarrow> string \<Rightarrow> real obj" where
  "neighborsOf graph currentNode = (case map_of graph currentNode of Some nb \<Rightarrow> nb | None \<Rightarrow> [])"

partial_function (option) dijkstra_loop :: "dgraph \<Rightarrow> string \<Rightarrow> dstate \<Rightarrow> dstate option" where
  "dijkstra_loop graph endNode st =
     (case sort_key snd (priorityQueue st) of
        [] \<Rightarrow> Some st
      | e # rest \<Rightarrow>
          (if fst e = endNode then Some (st\<lparr>priorityQueue := rest\<rparr>)
           else dijkstra_loop graph endNode
                  (fold (relax (fst e)) (neighborsOf graph (fst e)) (st\<lparr>priorityQueue := rest\<rparr>))))"

text \<open>
  The loop that builds the path backwards from the end node. It stops at a node whose
  predecessor is \<open>null\<close>; at an id with no entry at all the loop of the source never stops.
\<close>

partial_function (option) walk_back ::
  "(string option) obj \<Rightarrow> string \<Rightarrow> string list \<Rightarrow> string list option" where
  "walk_back prev current path =
     (case map_of prev current of
        None \<Rightarrow> None
      | Some None \<Rightarrow> Some (current # path)
      | Some (Some p) \<Rightarrow> walk_back prev p (current # path))"

record ShortestPaths =
  sp_distance :: "num option"
  sp_path :: "string list"

definition initialState :: "dgraph \<Rightarrow> string \<Rightarrow> dstate" where
  "initialState graph startNode =
     \<lparr>distances = obj_put startNode (Fin 0)
                     (fold (\<lambda>node d. obj_put node Infinity d) (obj_keys graph) []),
      previous = fold (\<lambda>node p. obj_put node None p) (obj_keys graph) [],
      priorityQueue = [(startNode, 0)]\<rparr>"

definition dijkstra :: "dgraph \<Rightarrow> string \<Rightarrow> string \<Rightarrow> ShortestPaths option" where
  "dijkstra graph startNode endNode =
     (case dijkstra_loop graph endNode (initialState graph startNode) of
        None \<Rightarrow> None
      | Some st \<Rightarrow>
          (case walk_back (previous st) endNode [] of
             None \<Rightarrow> None
           | Some path \<Rightarrow>
               Some \<lparr>sp_distance = map_of (distances st) endNode, sp_path = path\<rparr>))"

text \<open>
  \<open>convertGraphToDijkstraFormat\<close>: reading the point of a neighbour that is not a node
  throws a \<open>TypeError\<close>.
\<close>

datatype error = TypeError

definition convertNeighbors ::
  "(Point \<Rightarrow> Point \<Rightarrow> real) \<Rightarrow> RoadNode obj \<Rightarrow> RoadNode \<Rightarrow> error + real obj" where
  "convertNeighbors haversineDistance ns node =
     fold (\<lambda>neighborId acc.
             case acc of
               Inl err \<Rightarrow> Inl err
             | Inr row \<Rightarrow>
                 (case map_of ns neighborId of
                    None \<Rightarrow> Inl TypeError
                  | Some nb \<Rightarrow>
                      Inr (obj_put neighborId (haversineDistance (r_point node) (r_point nb)) row)))
          (r_neighbors node) (Inr [])"

definition convertGraphToDijkstraFormat ::
  "(Point \<Rightarrow> Point \<Rightarrow> real) \<Rightarrow> RoadNode obj \<Rightarrow> error + dgraph" where
  "convertGraphToDijkstraFormat haversineDistance ns =
     fold (\<lambda>e acc.
             case acc of
               Inl err \<Rightarrow> Inl err
             | Inr graph \<Rightarrow>
                 (case convertNeighbors haversineDistance ns (snd e) of
                    Inl err \<Rightarrow> Inl err
                  | Inr row \<Rightarrow> Inr (obj_put (fst e) row graph)))
          ns (Inr [])"

text \<open>
  \<open>findShortestPath\<close> of the helper-based router. The outer option is \<open>None\<close> when the
  helper does not return; inside, \<open>Inl\<close> is a thrown error and \<open>Inr None\<close> the result
  \<open>null\<close>. The turn instructions of the result (text derived from floating-point bearings)
  are left out.
\<close>

record HelperPathResult =
  hp_path :: "string list"
  hp_distance :: "num option"
  hp_coordinates :: "Point list"

definition pathCoordinates :: "RoadNode obj \<Rightarrow> string list \<Rightarrow> error + Point list" where
  "pathCoordinates ns path =
     fold (\<lambda>nodeId acc.
             case acc of
               Inl err \<Rightarrow> Inl err
             | Inr ps \<Rightarrow>
                 (case map_of ns nodeId of
                    None \<Rightarrow> Inl TypeError
                  | Some n \<Rightarrow> Inr (ps @ [r_point n])))
          path (Inr [])"

definition findShortestPath_helper ::
  "(Point \<Rightarrow> Point \<Rightarrow> real) \<Rightarrow> HelperFinder \<Rightarrow> string \<Rightarrow> string \<Rightarrow>
   (error + HelperPathResult option) option" where
  "findShortestPath_helper haversineDistance s startId endId =
     (if map_of (h_nodes s) startId = None \<or> map_of (h_nodes s) endId = None
      then Some (Inr None)
      else
        (case convertGraphToDijkstraFormat haversineDistance (h_nodes s) of
           Inl err \<Rightarrow> Some (Inl err)
         | Inr graph \<Rightarrow>
             (case dijkstra graph startId endId of
                None \<Rightarrow> None
              | Some result \<Rightarrow>
                  (if length (sp_path result) = 0 then Some (Inr None)
                   else
                     (case pathCoordinates (h_nodes s) (sp_path result) of
                        Inl err \<Rightarrow> Some (Inl err)
                      | Inr coordinates \<Rightarrow>
                          Some (Inr (Some \<lparr>hp_path = sp_path result,
                                           hp_distance = sp_distance result,
                                           hp_coordinates = coordinates\<rparr>)))))))"


section \<open>Example data\<close>

text \<open>A helper-based router as constructed.\<close>

definition newHelperFinder :: HelperFinder where
  "newHelperFinder =
     \<lparr>h_nodes = [], h_ways = [], h_osmNodes = [], initialized = False,
      lastFetchCenter = None, lastFetchRadius = 0\<rparr>"

text \<open>Two residential streets that do not meet: 1 - 2 and 3 - 4.\<close>

definition two_roads :: "element list" where
  "two_roads =
     [NodeElement 1 0 0, NodeElement 2 0 1, NodeElement 3 5 0, NodeElement 4 5 1,
      WayElement 10 [1, 2] [(''highway'', ''residential'')],
      WayElement 11 [3, 4] [(''highway'', ''residential'')]]"

text \<open>A motorway from 1 to 2 that carries no \<open>oneway\<close> tag.\<close>

definition motorway_data :: "element list" where
  "motorway_data =
     [NodeElement 1 0 0, NodeElement 2 0 1,
      WayElement 10 [1, 2] [(''highway'', ''motorway'')]]"

text \<open>A one-way primary road from 1 to 2.\<close>

definition oneway_data :: "element list" where
  "oneway_data =
     [NodeElement 1 0 0, NodeElement 2 0 1,
      WayElement 10 [1, 2] [(''highway'', ''primary''), (''oneway'', ''yes'')]]"



section \<open>Observations on graphs\<close>

text \<open>
  The weight of the directed edge from \<open>a\<close> to \<open>b\<close> in the weighted graph, whether \<open>b\<close> is
  listed as a neighbour of \<open>a\<close> in the helper-based graph, and the property that no weight
  is negative.
\<close>

definition weightOf :: "PathFinder \<Rightarrow> string \<Rightarrow> string \<Rightarrow> num option" where
  "weightOf s a b = (case map_of (nodes s) a of None \<Rightarrow> None | Some n \<Rightarrow> map_of (neighbors n) b)"

definition linked :: "RoadNode obj \<Rightarrow> string \<Rightarrow> string \<Rightarrow> bool" where
  "linked g a b = (case map_of g a of None \<Rightarrow> False | Some n \<Rightarrow> b \<in> set (r_neighbors n))"

definition nonneg_weights :: "GraphNode obj \<Rightarrow> bool" where
  "nonneg_weights g = (\<forall>e \<in> set g. \<forall>x \<in> set (neighbors (snd e)). num_le (Fin 0) (snd x))"

text \<open>
  The weight the builder computes for a segment of a way: \<open>w\<close> is the weight of the edge from
  \<open>x\<close> to \<open>y\<close> when some way of \<open>ways\<close> has consecutive nodes \<open>a\<close>, \<open>b\<close>, both stored in
  \<open>osmNodes\<close>, such that \<open>x\<close>, \<open>y\<close> are their graph ids in either order and \<open>w\<close> is the length
  from \<open>a\<close> to \<open>b\<close> over the speed limit of that way.
\<close>

definition segment_weight ::
  "(Point \<Rightarrow> Point \<Rightarrow> real) \<Rightarrow> OSMNode obj \<Rightarrow> OSMWay list \<Rightarrow> string \<Rightarrow> string \<Rightarrow> num \<Rightarrow> bool" where
  "segment_weight calculateDistance ns ways x y w =
     (\<exists>way \<in> set ways. \<exists>seg \<in> set (zip (way_nodes way) (tl (way_nodes way))).
        case map_of ns (show_nat (fst seg)) of
          None \<Rightarrow> False
        | Some node1Osm \<Rightarrow>
            (case map_of ns (show_nat (snd seg)) of
               None \<Rightarrow> False
             | Some node2Osm \<Rightarrow>
                 ((x = osm_key (fst seg) \<and> y = osm_key (snd seg)) \<or>
                  (x = osm_key (snd seg) \<and> y = osm_key (fst seg))) \<and>
                 w = edgeWeight (calculateDistance (osm_point node1Osm) (osm_point node2Osm))
                       (getSpeedLimit (way_tags way))))"


section \<open>Graph properties\<close>


definition closed_graph :: "GraphNode obj \<Rightarrow> bool" where
  "closed_graph g = (\<forall>e \<in> set g. \<forall>x \<in> set (neighbors (snd e)). fst x \<in> fst ` set g)"

definition graph_inv :: "GraphNode obj \<Rightarrow> bool" where
  "graph_inv g = (distinct (map fst g) \<and> closed_graph g \<and> (\<forall>k \<in> fst ` set g. k \<noteq> []))"

definition same_frame :: "PathFinder \<Rightarrow> PathFinder \<Rightarrow> bool" where
  "same_frame t s = (osmNodes t = osmNodes s \<and> osmWays t = osmWays s \<and>
     isInitialized t = isInitialized s \<and> (nodes t = []) = (nodes s = []))"

text \<open>The state on which a build starts: the maps cleared, then the elements stored.\<close>

definition stored :: "element list \<Rightarrow> PathFinder \<Rightarrow> PathFinder" where
  "stored elements s = fold processElement elements (s\<lparr>osmNodes := [], osmWays := [], nodes := []\<rparr>)"

text \<open>
  The state of a build just before the connectivity pass: the elements stored, the nodes
  added, the edges of all ways added.
\<close>

definition unpruned :: "(Point \<Rightarrow> Point \<Rightarrow> real) \<Rightarrow> element list \<Rightarrow> PathFinder \<Rightarrow> PathFinder" where
  "unpruned calculateDistance elements s =
     (let s1 = stored elements s;
          s2 = fold (\<lambda>osmNode. addNode (osm_key (osm_id osmNode)) (osm_point osmNode))
                    (obj_values (osmNodes s1)) s1
      in fold (addWay calculateDistance) (obj_values (osmWays s2)) s2)"

text \<open>
  \<open>addEdge\<close> of the earlier router in \<open>Eyy/utils/pathfinding.ts\<close>: the distance between
  the two nodes is stored in both directions.
\<close>

definition addEdge_pathfinding ::
  "(Point \<Rightarrow> Point \<Rightarrow> real) \<Rightarrow> string \<Rightarrow> string \<Rightarrow> PathFinder \<Rightarrow> PathFinder" where
  "addEdge_pathfinding calculateDistance node1Id node2Id s =
     (case map_of (nodes s) node1Id of
        None \<Rightarrow> s
      | Some node1 \<Rightarrow>
          (case map_of (nodes s) node2Id of
             None \<Rightarrow> s
           | Some node2 \<Rightarrow>
               (let distance = calculateDistance (point node1) (point node2);
                    g1 = obj_put node1Id
                           (node1\<lparr>neighbors := obj_put node2Id (Fin distance) (neighbors node1)\<rparr>)
                           (nodes s)
                in case map_of g1 node2Id of
                     None \<Rightarrow> s
                   | Some n2 \<Rightarrow>
                       s\<lparr>nodes := obj_put node2Id
                                     (n2\<lparr>neighbors := obj_put node1Id (Fin distance) (neighbors n2)\<rparr>)
                                     g1\<rparr>)))"

text \<open>Two nodes \<open>a\<close> and \<open>b\<close> joined by an edge, in the earlier router.\<close>

definition joined_pair :: PathFinder where
  "joined_pair =
     addEdge_pathfinding flat_distance ''a'' ''b''
       (addNode_pathfinding ''b'' \<lparr>latitude = 0, longitude = 1\<rparr>
          (addNode_pathfinding ''a'' \<lparr>latitude = 0, longitude = 0\<rparr> newPathFinder))"

text \<open>The weighted graph built from the one-way road, and the helper-based graph of the motorway.\<close>

definition oneway_graph :: PathFinder where
  "oneway_graph = processOSMData flat_distance oneway_data newPathFinder"

definition motorway_helper_graph :: "RoadNode obj" where
  "motorway_helper_graph = h_nodes (processOverpassData motorway_data newHelperFinder)"

text \<open>The weighted graph built from the one-way road, with the distances of the router.\<close>

definition oneway_road_graph :: PathFinder where
  "oneway_road_graph = processOSMData calculateDistance_haversine oneway_data newPathFinder"


section \<open>Fare estimation\<close>

text \<open>
  \<open>PathFinder.calculateFare\<close> of the weighted router; its argument is the route length in
  kilometres.
\<close>

definition BASE_FARE :: real where "BASE_FARE = 15"
definition RATE_PER_KM :: real where "RATE_PER_KM = 11"
definition BASE_KM :: real where "BASE_KM = 1"

definition calculateFare :: "real \<Rightarrow> real" where
  "calculateFare distance =
     (if distance \<le> BASE_KM then BASE_FARE
      else BASE_FARE + (distance - BASE_KM) * RATE_PER_KM)"

text \<open>
  \<open>calculateEstimatedFare\<close> of the commuter screens. The argument is the value of
  \<open>calculateDistance(start, end)\<close>, a length in metres. The two screens carry different
  constants: base fare 15, rate 5, minimum 15 on the home screen and base fare 50, rate 15,
  minimum 70 on the location screen.
\<close>

definition calculateEstimatedFare_home :: "real \<Rightarrow> real" where
  "calculateEstimatedFare_home distance =
     (let baseFare = 15; perKmRate = 5; minimumFare = 15;
          fare = baseFare + (distance / 1000 * perKmRate)
      in max fare minimumFare)"

definition calculateEstimatedFare_location :: "real \<Rightarrow> real" where
  "calculateEstimatedFare_location distance =
     (let baseFare = 50; perKmRate = 15; minimumFare = 70;
          fare = baseFare + (distance / 1000 * perKmRate)
      in max fare minimumFare)"

text \<open>
  The fare rule in the specification's words, before clamping: the base fare up to the base
  distance, a per-kilometre rate beyond it.
\<close>

definition fare_formula :: "real \<Rightarrow> real \<Rightarrow> real \<Rightarrow> real \<Rightarrow> real" where
  "fare_formula baseFare baseDistanceKm perKmRate d =
     (if d \<le> baseDistanceKm then baseFare else baseFare + (d - baseDistanceKm) * perKmRate)"

section \<open>Facts about objects\<close>

lemma keys_obj_replace: "map fst (obj_replace k v ob) = map fst ob"
  by (induction ob) auto

lemma keys_obj_insert: "fst ` set (obj_insert k v ob) = insert k (fst ` set ob)"
proof (induction ob)
  case Nil
  show ?case by simp
next
  case (Cons e ob)
  then show ?case by (cases e) (simp add: insert_commute)
qed

lemma fst_set_obj_replace: "fst ` set (obj_replace k v ob) = fst ` set ob"
  using keys_obj_replace [of k v ob] by (metis set_map)

lemma keys_obj_put: "fst ` set (obj_put k v ob) = insert k (fst ` set ob)"
  by (simp add: obj_put_def fst_set_obj_replace keys_obj_insert insert_absorb)

lemma map_of_obj_replace:
  "map_of (obj_replace k v ob) k' =
     (if k' = k \<and> k \<in> fst ` set ob then Some v else map_of ob k')"
proof (induction ob)
  case Nil
  show ?case by simp
next
  case (Cons e ob)
  show ?case
  proof (cases "k = fst e")
    case True
    then show ?thesis by (cases e) simp
  next
    case False
    then show ?thesis using Cons by (cases e) (force simp: image_iff)
  qed
qed

lemma map_of_obj_insert:
  "k \<notin> fst ` set ob \<Longrightarrow>
   map_of (obj_insert k v ob) k' = (if k' = k then Some v else map_of ob k')"
proof (induction ob)
  case Nil
  show ?case by simp
next
  case (Cons e ob)
  then have "k \<noteq> fst e" "k \<notin> fst ` set ob" by auto
  then show ?case using Cons.IH by (cases e) auto
qed

lemma map_of_obj_put: "map_of (obj_put k v ob) k' = (if k' = k then Some v else map_of ob k')"
  by (simp add: obj_put_def map_of_obj_replace map_of_obj_insert)

lemma distinct_obj_insert:
  "distinct (map fst ob) \<Longrightarrow> k \<notin> fst ` set ob \<Longrightarrow> distinct (map fst (obj_insert k v ob))"
proof (induction ob)
  case Nil
  show ?case by simp
next
  case (Cons e ob)
  then have a: "k \<noteq> fst e" "k \<notin> fst ` set ob" "distinct (map fst ob)" "fst e \<notin> fst ` set ob"
    by auto
  have "fst e \<notin> fst ` set (obj_insert k v ob)"
    using a by (simp add: keys_obj_insert)
  then show ?case using Cons.IH a by (cases e) auto
qed

lemma distinct_obj_put: "distinct (map fst ob) \<Longrightarrow> distinct (map fst (obj_put k v ob))"
  by (simp add: obj_put_def keys_obj_replace distinct_obj_insert)

lemma set_obj_replace: "set (obj_replace k v ob) \<subseteq> insert (k, v) (set ob)"
proof (induction ob)
  case Nil
  show ?case by simp
next
  case (Cons e ob)
  then show ?case by (cases e) auto
qed

lemma set_obj_insert: "set (obj_insert k v ob) = insert (k, v) (set ob)"
proof (induction ob)
  case Nil
  show ?case by simp
next
  case (Cons e ob)
  then show ?case by (cases e) auto
qed

lemma set_obj_put: "set (obj_put k v ob) \<subseteq> insert (k, v) (set ob)"
  using set_obj_replace [of k v ob] by (auto simp: obj_put_def set_obj_insert)

lemma map_of_obj_delete: "map_of (obj_delete k ob) k' = (if k' = k then None else map_of ob k')"
  by (induction ob) (auto simp: obj_delete_def)

lemma keys_obj_delete: "map fst (obj_delete k ob) = filter (\<lambda>x. x \<noteq> k) (map fst ob)"
  by (induction ob) (auto simp: obj_delete_def)


lemma fold_invariant:
  "P s \<Longrightarrow> (\<And>x t. x \<in> set xs \<Longrightarrow> P t \<Longrightarrow> P (f x t)) \<Longrightarrow> P (fold f xs s)"
  by (induction xs arbitrary: s) auto

text \<open>Rules that run the model on concrete data.\<close>

lemmas eval_obj =
  obj_put_def show_nat_small show_nat_large digit_char_def key_before_def array_index_def
  is_digit_def str_to_nat_def digit_val_def obj_values_def obj_keys_def obj_delete_def
  osm_key_def osm_point_def Let_def

lemmas eval_build =
  processOSMData_def newPathFinder_def processElement_def isValidRoadWay_def tag_def
  validRoadTypes_def buildGraphFromOSM_def addNode_def addWay_def addSegment_def
  getSpeedLimit_def isOneWayStreet_def DEFAULT_SPEEDS_def edgeWeight_def addEdge_def
  validateGraphConnectivity_def visit_def removeIsolated_def flat_distance_def
  ROAD_TYPES_MOTORWAY_def

lemmas eval_helper =
  processOverpassData_def processOverpassElement_def buildGraph_def initialGraph_def
  connectWay_def connectSegment_def addNeighbor_def keepConnected_def
  findShortestPath_helper_def convertGraphToDijkstraFormat_def convertNeighbors_def
  flat_distance_def dijkstra_def initialState_def dijkstra_loop.simps walk_back.simps
  relax_def neighborsOf_def pathCoordinates_def


section \<open>Facts about nodes, edges and weights\<close>

lemma addNode_existing: "map_of (nodes s) i \<noteq> None \<Longrightarrow> addNode i p s = s"
  by (auto simp: addNode_def)

lemma addNode_pathfinding_overwrites:
  "map_of (nodes (addNode_pathfinding i p s)) i = Some \<lparr>ident = i, point = p, neighbors = []\<rparr>"
  by (simp add: addNode_pathfinding_def map_of_obj_put)

lemma addEdge_Some:
  "map_of (nodes s) a = Some n1 \<Longrightarrow> map_of (nodes s) b = Some n2 \<Longrightarrow>
   addEdge a b w s = s\<lparr>nodes := obj_put a (n1\<lparr>neighbors := obj_put b w (neighbors n1)\<rparr>) (nodes s)\<rparr>"
  by (simp add: addEdge_def)

lemma addEdge_None:
  "map_of (nodes s) a = None \<or> map_of (nodes s) b = None \<Longrightarrow> addEdge a b w s = s"
  by (cases "map_of (nodes s) a"; cases "map_of (nodes s) b") (simp_all add: addEdge_def)

lemma weightOf_addEdge:
  assumes "map_of (nodes s) a \<noteq> None" "map_of (nodes s) b \<noteq> None"
  shows "weightOf (addEdge a b w s) x y = (if x = a \<and> y = b then Some w else weightOf s x y)"
proof -
  obtain n1 n2 where n: "map_of (nodes s) a = Some n1" "map_of (nodes s) b = Some n2"
    using assms by auto
  show ?thesis
    by (simp add: addEdge_Some [OF n] weightOf_def map_of_obj_put n)
qed

lemma nodes_dom_addEdge: "(map_of (nodes (addEdge a b w s)) x = None) = (map_of (nodes s) x = None)"
proof (cases "map_of (nodes s) a = None \<or> map_of (nodes s) b = None")
  case True
  then show ?thesis by (simp add: addEdge_None)
next
  case False
  then obtain n1 n2 where n: "map_of (nodes s) a = Some n1" "map_of (nodes s) b = Some n2"
    by auto
  show ?thesis by (auto simp: addEdge_Some [OF n] map_of_obj_put n)
qed

lemma osmNodes_addEdge: "osmNodes (addEdge a b w s) = osmNodes s"
proof (cases "map_of (nodes s) a = None \<or> map_of (nodes s) b = None")
  case True
  then show ?thesis by (simp add: addEdge_None)
next
  case False
  then obtain n1 n2 where n: "map_of (nodes s) a = Some n1" "map_of (nodes s) b = Some n2"
    by auto
  show ?thesis by (simp add: addEdge_Some [OF n])
qed

lemma addSegment_present:
  assumes "map_of (osmNodes s) (show_nat a) = Some na" "map_of (osmNodes s) (show_nat b) = Some nb"
    and "map_of (nodes s) (osm_key a) = Some ga" "map_of (nodes s) (osm_key b) = Some gb"
  shows "addSegment cd speed ow (a, b) s =
     (if ow then addEdge (osm_key a) (osm_key b) (edgeWeight (cd (osm_point na) (osm_point nb)) speed) s
      else addEdge (osm_key b) (osm_key a) (edgeWeight (cd (osm_point na) (osm_point nb)) speed)
             (addEdge (osm_key a) (osm_key b)
                (edgeWeight (cd (osm_point na) (osm_point nb)) speed) s))"
  unfolding addSegment_def Let_def using assms by simp

lemma addSegment_absent:
  assumes "map_of (osmNodes s) (show_nat a) = None \<or> map_of (osmNodes s) (show_nat b) = None
     \<or> map_of (nodes s) (osm_key a) = None \<or> map_of (nodes s) (osm_key b) = None"
  shows "addSegment cd speed ow (a, b) s = s"
  unfolding addSegment_def Let_def using assms by (auto split: option.splits)

lemma if_merge: "(if A then S else if B then S else W) = (if B \<or> A then S else W)"
  by simp

lemma addSegment_oneway:
  assumes "map_of (osmNodes s) (show_nat a) = Some na" "map_of (osmNodes s) (show_nat b) = Some nb"
    and "map_of (nodes s) (osm_key a) = Some ga" "map_of (nodes s) (osm_key b) = Some gb"
  shows "addSegment cd speed True (a, b) s =
     addEdge (osm_key a) (osm_key b) (edgeWeight (cd (osm_point na) (osm_point nb)) speed) s"
  unfolding addSegment_present [OF assms] by (simp only: if_True if_False)

lemma addSegment_twoway:
  assumes "map_of (osmNodes s) (show_nat a) = Some na" "map_of (osmNodes s) (show_nat b) = Some nb"
    and "map_of (nodes s) (osm_key a) = Some ga" "map_of (nodes s) (osm_key b) = Some gb"
  shows "addSegment cd speed False (a, b) s =
     addEdge (osm_key b) (osm_key a) (edgeWeight (cd (osm_point na) (osm_point nb)) speed)
       (addEdge (osm_key a) (osm_key b) (edgeWeight (cd (osm_point na) (osm_point nb)) speed) s)"
  unfolding addSegment_present [OF assms] by (simp only: if_True if_False)

lemma weightOf_addSegment_oneway:
  assumes "map_of (osmNodes s) (show_nat a) = Some na" "map_of (osmNodes s) (show_nat b) = Some nb"
    and "map_of (nodes s) (osm_key a) = Some ga" "map_of (nodes s) (osm_key b) = Some gb"
  shows "weightOf (addSegment cd speed True (a, b) s) x y =
     (if x = osm_key a \<and> y = osm_key b
      then Some (edgeWeight (cd (osm_point na) (osm_point nb)) speed)
      else weightOf s x y)"
proof -
  have q: "map_of (nodes s) (osm_key a) \<noteq> None" "map_of (nodes s) (osm_key b) \<noteq> None"
    using assms(3,4) by simp_all
  show ?thesis
    unfolding addSegment_oneway [OF assms] by (rule weightOf_addEdge [OF q])
qed

lemma weightOf_addSegment_twoway:
  assumes "map_of (osmNodes s) (show_nat a) = Some na" "map_of (osmNodes s) (show_nat b) = Some nb"
    and "map_of (nodes s) (osm_key a) = Some ga" "map_of (nodes s) (osm_key b) = Some gb"
  shows "weightOf (addSegment cd speed False (a, b) s) x y =
     (if (x = osm_key a \<and> y = osm_key b) \<or> (x = osm_key b \<and> y = osm_key a)
      then Some (edgeWeight (cd (osm_point na) (osm_point nb)) speed)
      else weightOf s x y)"
proof -
  have q: "map_of (nodes s) (osm_key a) \<noteq> None" "map_of (nodes s) (osm_key b) \<noteq> None"
    using assms(3,4) by simp_all
  have p: "map_of (nodes (addEdge (osm_key a) (osm_key b) w s)) (osm_key b) \<noteq> None"
          "map_of (nodes (addEdge (osm_key a) (osm_key b) w s)) (osm_key a) \<noteq> None" for w
    unfolding nodes_dom_addEdge by (rule q(2), rule q(1))
  show ?thesis
    unfolding addSegment_twoway [OF assms] weightOf_addEdge [OF p] weightOf_addEdge [OF q]
    by (rule if_merge)
qed

lemma edgeWeight_checked_eq: "edgeWeight_checked d sp = Inr (edgeWeight d sp)"
  by (simp add: edgeWeight_checked_def edgeWeight_def checked_div_def Let_def)

lemma edgeWeight_nonneg: "0 \<le> d \<Longrightarrow> num_le (Fin 0) (edgeWeight d sp)"
  by (simp add: edgeWeight_def Let_def)

lemma default_speeds_pos: "(k, v) \<in> set DEFAULT_SPEEDS \<Longrightarrow> 0 < v"
  by (auto simp: DEFAULT_SPEEDS_def)

lemma getSpeedLimit_pos: "0 < getSpeedLimit ts"
proof -
  have d: "0 < v" if "map_of DEFAULT_SPEEDS k = Some v" for k v
    using map_of_SomeD [OF that] by (rule default_speeds_pos)
  show ?thesis
    unfolding getSpeedLimit_def Let_def
    by (auto simp: AVERAGE_SPEED_KMH_def d split: option.splits)
qed


section \<open>Facts about the traversal\<close>

lemma fold_visit_shape:
  "\<exists>xs. fold visit ns (q, v) = (q @ xs, v @ xs) \<and> set xs = set ns - set v"
proof (induction ns arbitrary: q v)
  case Nil
  show ?case by simp
next
  case (Cons a ns)
  show ?case
  proof (cases "a \<in> set v")
    case True
    obtain xs where "fold visit ns (q, v) = (q @ xs, v @ xs)" "set xs = set ns - set v"
      using Cons [of q v] by blast
    moreover have "visit a (q, v) = (q, v)" using True by (simp add: visit_def)
    ultimately have "fold visit (a # ns) (q, v) = (q @ xs, v @ xs)" "set xs = set (a # ns) - set v"
      using True by auto
    then show ?thesis by blast
  next
    case False
    obtain xs where x: "fold visit ns (q @ [a], v @ [a]) = ((q @ [a]) @ xs, (v @ [a]) @ xs)"
      "set xs = set ns - set (v @ [a])"
      using Cons [of "q @ [a]" "v @ [a]"] by blast
    have "visit a (q, v) = (q @ [a], v @ [a])" using False by (simp add: visit_def)
    then have "fold visit (a # ns) (q, v) = (q @ (a # xs), v @ (a # xs))"
      using x(1) by simp
    moreover have "set (a # xs) = set (a # ns) - set v"
      using False x(2) by auto
    ultimately show ?thesis by blast
  qed
qed

lemma bfs_closed_aux:
  assumes "set q \<subseteq> set v"
    and "\<forall>u \<in> set v - set q. \<forall>n. map_of g u = Some n \<longrightarrow> fst ` set (neighbors n) \<subseteq> set v"
  shows "set v \<subseteq> set (bfs g q v) \<and>
         (\<forall>u \<in> set (bfs g q v). \<forall>n. map_of g u = Some n \<longrightarrow>
             fst ` set (neighbors n) \<subseteq> set (bfs g q v))"
  using assms
proof (induction g q v rule: bfs.induct)
  case (1 g visited)
  then show ?case by simp
next
  case (2 g currentId queue visited)
  show ?case
  proof (cases "map_of g currentId")
    case None
    have a: "set queue \<subseteq> set visited" using "2.prems"(1) by simp
    have b: "\<forall>u \<in> set visited - set queue. \<forall>n. map_of g u = Some n \<longrightarrow>
               fst ` set (neighbors n) \<subseteq> set visited"
    proof (intro ballI allI impI)
      fix u n assume u: "u \<in> set visited - set queue" and n: "map_of g u = Some n"
      then have "u \<noteq> currentId" using None by auto
      then have "u \<in> set visited - set (currentId # queue)" using u by simp
      then show "fst ` set (neighbors n) \<subseteq> set visited" using "2.prems"(2) n by blast
    qed
    show ?thesis using "2.IH"(1) [OF None a b] None by simp
  next
    case (Some currentNode)
    let ?ns = "obj_keys (neighbors currentNode)"
    obtain xs where xs: "fold visit ?ns (queue, visited) = (queue @ xs, visited @ xs)"
      "set xs = set ?ns - set visited"
      using fold_visit_shape by blast
    have a: "set (queue @ xs) \<subseteq> set (visited @ xs)" using "2.prems"(1) by auto
    have b: "\<forall>u \<in> set (visited @ xs) - set (queue @ xs). \<forall>n. map_of g u = Some n \<longrightarrow>
               fst ` set (neighbors n) \<subseteq> set (visited @ xs)"
    proof (intro ballI allI impI)
      fix u n assume u: "u \<in> set (visited @ xs) - set (queue @ xs)" and n: "map_of g u = Some n"
      then have uv: "u \<in> set visited" "u \<notin> set queue" by auto
      show "fst ` set (neighbors n) \<subseteq> set (visited @ xs)"
      proof (cases "u = currentId")
        case True
        then have "n = currentNode" using n Some by simp
        then show ?thesis using xs(2) by (auto simp: obj_keys_def)
      next
        case False
        then have "u \<in> set visited - set (currentId # queue)" using uv by simp
        then have "fst ` set (neighbors n) \<subseteq> set visited" using "2.prems"(2) n by blast
        then show ?thesis by auto
      qed
    qed
    have r: "bfs g (currentId # queue) visited = bfs g (queue @ xs) (visited @ xs)"
      using Some xs(1) by simp
    have "set (visited @ xs) \<subseteq> set (bfs g (queue @ xs) (visited @ xs)) \<and>
         (\<forall>u \<in> set (bfs g (queue @ xs) (visited @ xs)). \<forall>n. map_of g u = Some n \<longrightarrow>
             fst ` set (neighbors n) \<subseteq> set (bfs g (queue @ xs) (visited @ xs)))"
      using "2.IH"(2) [OF Some] a b xs(1) by simp
    then show ?thesis unfolding r by auto
  qed
qed



section \<open>Facts about the removal of unreached nodes\<close>

lemma keys_removeIsolated: "map fst (removeIsolated i g) = filter (\<lambda>k. k \<noteq> i) (map fst g)"
  by (simp add: removeIsolated_def keys_obj_delete comp_def)

lemma keys_fold_removeIsolated:
  "map fst (fold removeIsolated is g) = filter (\<lambda>k. k \<notin> set is) (map fst g)"
proof (induction "is" arbitrary: g)
  case Nil
  show ?case by simp
next
  case (Cons i "is")
  show ?case by (simp add: Cons keys_removeIsolated conj_commute)
qed

lemma filter_removeIsolated:
  assumes "\<forall>e \<in> set g. P (fst e) \<longrightarrow> fst e \<noteq> i \<and> map_of (neighbors (snd e)) i = None"
  shows "filter (\<lambda>e. P (fst e)) (removeIsolated i g) = filter (\<lambda>e. P (fst e)) g"
  using assms
proof (induction g)
  case Nil
  show ?case by (simp add: removeIsolated_def obj_delete_def)
next
  case (Cons e g)
  have ih: "filter (\<lambda>e. P (fst e)) (removeIsolated i g) = filter (\<lambda>e. P (fst e)) g"
    using Cons by simp
  have step: "removeIsolated i (e # g) =
      (if fst e \<noteq> i
       then (fst e, if truthy_num (map_of (neighbors (snd e)) i)
                    then (snd e)\<lparr>neighbors := obj_delete i (neighbors (snd e))\<rparr> else snd e)
            # removeIsolated i g
       else removeIsolated i g)"
    by (simp add: removeIsolated_def obj_delete_def)
  show ?case
  proof (cases "P (fst e)")
    case True
    then have "fst e \<noteq> i" "map_of (neighbors (snd e)) i = None" using Cons.prems by auto
    then show ?thesis using True ih by (simp add: step)
  next
    case False
    then show ?thesis using ih by (simp add: step)
  qed
qed

lemma filter_fold_removeIsolated:
  assumes "\<forall>i \<in> set is. \<forall>e \<in> set g. P (fst e) \<longrightarrow> fst e \<noteq> i \<and> map_of (neighbors (snd e)) i = None"
  shows "filter (\<lambda>e. P (fst e)) (fold removeIsolated is g) = filter (\<lambda>e. P (fst e)) g"
  using assms
proof (induction "is" arbitrary: g)
  case Nil
  show ?case by simp
next
  case (Cons i "is")
  have one: "filter (\<lambda>e. P (fst e)) (removeIsolated i g) = filter (\<lambda>e. P (fst e)) g"
    by (rule filter_removeIsolated) (use Cons.prems in auto)
  have rest: "\<forall>j \<in> set is. \<forall>e \<in> set (removeIsolated i g).
      P (fst e) \<longrightarrow> fst e \<noteq> j \<and> map_of (neighbors (snd e)) j = None"
  proof (intro ballI impI)
    fix j e assume j: "j \<in> set is" and e: "e \<in> set (removeIsolated i g)" and p: "P (fst e)"
    then have "e \<in> set (filter (\<lambda>e. P (fst e)) (removeIsolated i g))" by simp
    then have "e \<in> set g" unfolding one by simp
    then show "fst e \<noteq> j \<and> map_of (neighbors (snd e)) j = None"
      using Cons.prems j p by auto
  qed
  have "filter (\<lambda>e. P (fst e)) (fold removeIsolated is (removeIsolated i g)) =
        filter (\<lambda>e. P (fst e)) (removeIsolated i g)"
    using Cons.IH [OF rest] .
  then show ?case using one by simp
qed

lemma fold_removeIsolated_filter:
  assumes "\<forall>i \<in> set is. \<forall>e \<in> set g. fst e \<notin> set is \<longrightarrow> map_of (neighbors (snd e)) i = None"
  shows "fold removeIsolated is g = filter (\<lambda>e. fst e \<notin> set is) g"
proof -
  have k: "set (map fst (fold removeIsolated is g)) \<inter> set is = {}"
    unfolding keys_fold_removeIsolated by auto
  have "filter (\<lambda>e. fst e \<notin> set is) (fold removeIsolated is g) = fold removeIsolated is g"
    using k by (intro filter_True) auto
  moreover have "filter (\<lambda>e. fst e \<notin> set is) (fold removeIsolated is g) =
      filter (\<lambda>e. fst e \<notin> set is) g"
    by (rule filter_fold_removeIsolated [where P = "\<lambda>k. k \<notin> set is"]) (use assms in auto)
  ultimately show ?thesis by simp
qed

lemma validateGraphConnectivity_nodes:
  assumes d: "distinct (map fst (nodes s))"
    and st: "nodes s = (start, n0) # rest" "start \<noteq> []"
  shows "nodes (validateGraphConnectivity s) =
         filter (\<lambda>e. fst e \<in> set (bfs (nodes s) [start] [start])) (nodes s)"
proof -
  let ?g = "nodes s"
  let ?V = "set (bfs ?g [start] [start])"
  let ?is = "filter (\<lambda>i. i \<notin> ?V) (obj_keys ?g)"
  have cl: "set [start] \<subseteq> ?V \<and> (\<forall>u \<in> ?V. \<forall>n. map_of ?g u = Some n \<longrightarrow> fst ` set (neighbors n) \<subseteq> ?V)"
    by (rule bfs_closed_aux) simp_all
  have cond: "\<forall>i \<in> set ?is. \<forall>e \<in> set ?g. fst e \<notin> set ?is \<longrightarrow> map_of (neighbors (snd e)) i = None"
  proof (intro ballI impI)
    fix i e assume i: "i \<in> set ?is" and e: "e \<in> set ?g" and ne: "fst e \<notin> set ?is"
    have "fst e \<in> set (obj_keys ?g)" using e by (auto simp: obj_keys_def)
    then have v: "fst e \<in> ?V" using ne by auto
    have "map_of ?g (fst e) = Some (snd e)" using d e by (cases e) simp
    then have "fst ` set (neighbors (snd e)) \<subseteq> ?V" using cl v by blast
    moreover have "i \<notin> ?V" using i by simp
    ultimately have "i \<notin> fst ` set (neighbors (snd e))" by blast
    then show "map_of (neighbors (snd e)) i = None" by (simp add: map_of_eq_None_iff)
  qed
  have "nodes (validateGraphConnectivity s) = fold removeIsolated ?is ?g"
    using st by (simp add: validateGraphConnectivity_def obj_keys_def Let_def)
  also have "\<dots> = filter (\<lambda>e. fst e \<notin> set ?is) ?g"
    by (rule fold_removeIsolated_filter [OF cond])
  also have "\<dots> = filter (\<lambda>e. fst e \<in> ?V) ?g"
    by (rule filter_cong) (auto simp: obj_keys_def)
  finally show ?thesis .
qed

section \<open>Facts about the builder\<close>

lemma closed_graph_put:
  assumes "closed_graph g" "\<forall>x \<in> set (neighbors n). fst x \<in> insert k (fst ` set g)"
  shows "closed_graph (obj_put k n g)"
  unfolding closed_graph_def
proof (intro ballI)
  fix e x assume e: "e \<in> set (obj_put k n g)" and x: "x \<in> set (neighbors (snd e))"
  have "e = (k, n) \<or> e \<in> set g" using e set_obj_put [of k n g] by auto
  then have "fst x \<in> insert k (fst ` set g)"
  proof
    assume "e = (k, n)"
    then show ?thesis using assms(2) x by simp
  next
    assume "e \<in> set g"
    then show ?thesis using assms(1) x unfolding closed_graph_def by blast
  qed
  then show "fst x \<in> fst ` set (obj_put k n g)" by (simp add: keys_obj_put)
qed

lemma graph_inv_addNode:
  assumes "graph_inv (nodes s)" "i \<noteq> []"
  shows "graph_inv (nodes (addNode i p s))"
proof (cases "map_of (nodes s) i")
  case None
  have "closed_graph (obj_put i \<lparr>ident = i, point = p, neighbors = []\<rparr> (nodes s))"
    by (rule closed_graph_put) (use assms in \<open>simp_all add: graph_inv_def\<close>)
  then show ?thesis
    using assms None by (simp add: addNode_def graph_inv_def distinct_obj_put keys_obj_put)
next
  case (Some n)
  then show ?thesis using assms by (simp add: addNode_def)
qed

lemma keys_addEdge: "fst ` set (nodes (addEdge a b w s)) = fst ` set (nodes s)"
proof (cases "map_of (nodes s) a = None \<or> map_of (nodes s) b = None")
  case True
  then show ?thesis by (simp add: addEdge_None)
next
  case False
  then obtain n1 n2 where n: "map_of (nodes s) a = Some n1" "map_of (nodes s) b = Some n2"
    by auto
  have "a \<in> fst ` set (nodes s)" using n(1) by (metis map_of_eq_None_iff option.distinct(1))
  then show ?thesis by (simp add: addEdge_Some [OF n] keys_obj_put insert_absorb)
qed

lemma graph_inv_addEdge:
  assumes "graph_inv (nodes s)"
  shows "graph_inv (nodes (addEdge a b w s))"
proof (cases "map_of (nodes s) a = None \<or> map_of (nodes s) b = None")
  case True
  then show ?thesis using assms by (simp add: addEdge_None)
next
  case False
  then obtain n1 n2 where n: "map_of (nodes s) a = Some n1" "map_of (nodes s) b = Some n2"
    by auto
  let ?g = "obj_put a (n1\<lparr>neighbors := obj_put b w (neighbors n1)\<rparr>) (nodes s)"
  have ka: "a \<in> fst ` set (nodes s)" using n(1) by (metis map_of_eq_None_iff option.distinct(1))
  have kb: "b \<in> fst ` set (nodes s)" using n(2) by (metis map_of_eq_None_iff option.distinct(1))
  have e1: "(a, n1) \<in> set (nodes s)" using n(1) by (rule map_of_SomeD)
  have cg: "closed_graph (nodes s)" using assms by (simp add: graph_inv_def)
  have old: "fst x \<in> fst ` set (nodes s)" if "x \<in> set (neighbors n1)" for x
    using cg e1 that unfolding closed_graph_def by force
  have new: "\<forall>x \<in> set (neighbors (n1\<lparr>neighbors := obj_put b w (neighbors n1)\<rparr>)).
               fst x \<in> insert a (fst ` set (nodes s))"
  proof
    fix x assume "x \<in> set (neighbors (n1\<lparr>neighbors := obj_put b w (neighbors n1)\<rparr>))"
    then have "x \<in> set (obj_put b w (neighbors n1))" by simp
    then have "x = (b, w) \<or> x \<in> set (neighbors n1)"
      using set_obj_put [of b w "neighbors n1"] by blast
    then show "fst x \<in> insert a (fst ` set (nodes s))"
    proof
      assume "x = (b, w)"
      then have "fst x = b" by simp
      then show ?thesis using kb by simp
    next
      assume "x \<in> set (neighbors n1)"
      then show ?thesis using old by blast
    qed
  qed
  have c: "closed_graph ?g" using cg new by (rule closed_graph_put)
  have d: "distinct (map fst ?g)" using assms by (simp add: graph_inv_def distinct_obj_put)
  have k: "fst ` set ?g = fst ` set (nodes s)" using ka by (simp add: keys_obj_put insert_absorb)
  have ne: "\<forall>k \<in> fst ` set ?g. k \<noteq> []" unfolding k using assms by (simp add: graph_inv_def)
  have "graph_inv ?g" unfolding graph_inv_def using c d ne by blast
  then show ?thesis by (simp add: addEdge_Some [OF n])
qed

lemma addSegment_cases:
  "addSegment cd speed ow seg s = s \<or>
   (\<exists>w. addSegment cd speed ow seg s = addEdge (osm_key (fst seg)) (osm_key (snd seg)) w s
        \<and> w = edgeWeight (cd (osm_point (the (map_of (osmNodes s) (show_nat (fst seg)))))
                              (osm_point (the (map_of (osmNodes s) (show_nat (snd seg)))))) speed) \<or>
   (\<exists>w. addSegment cd speed ow seg s =
          addEdge (osm_key (snd seg)) (osm_key (fst seg)) w
            (addEdge (osm_key (fst seg)) (osm_key (snd seg)) w s)
        \<and> w = edgeWeight (cd (osm_point (the (map_of (osmNodes s) (show_nat (fst seg)))))
                              (osm_point (the (map_of (osmNodes s) (show_nat (snd seg)))))) speed)"
proof -
  obtain a b where seg: "seg = (a, b)" by (cases seg)
  show ?thesis
  proof (cases "map_of (osmNodes s) (show_nat a) = None \<or> map_of (osmNodes s) (show_nat b) = None
     \<or> map_of (nodes s) (osm_key a) = None \<or> map_of (nodes s) (osm_key b) = None")
    case True
    then show ?thesis unfolding seg by (simp add: addSegment_absent)
  next
    case False
    then obtain na nb ga gb where h: "map_of (osmNodes s) (show_nat a) = Some na"
      "map_of (osmNodes s) (show_nat b) = Some nb"
      "map_of (nodes s) (osm_key a) = Some ga" "map_of (nodes s) (osm_key b) = Some gb"
      by auto
    show ?thesis
    proof (cases ow)
      case True
      show ?thesis unfolding seg using addSegment_oneway [OF h] h True by simp
    next
      case False
      show ?thesis unfolding seg using addSegment_twoway [OF h] h False by simp
    qed
  qed
qed

lemma graph_inv_addSegment:
  assumes "graph_inv (nodes s)"
  shows "graph_inv (nodes (addSegment cd speed ow seg s))"
proof -
  have a: "graph_inv (nodes (addEdge x y w s))" for x y w
    by (rule graph_inv_addEdge [OF assms])
  have b: "graph_inv (nodes (addEdge x' y' w' (addEdge x y w s)))" for x y w x' y' w'
    by (rule graph_inv_addEdge [OF a])
  from addSegment_cases [of cd speed ow seg s] show ?thesis
  proof (elim disjE exE conjE)
    assume "addSegment cd speed ow seg s = s"
    then show ?thesis using assms by simp
  next
    fix w assume "addSegment cd speed ow seg s = addEdge (osm_key (fst seg)) (osm_key (snd seg)) w s"
    then show ?thesis using a by simp
  next
    fix w assume "addSegment cd speed ow seg s =
          addEdge (osm_key (snd seg)) (osm_key (fst seg)) w
            (addEdge (osm_key (fst seg)) (osm_key (snd seg)) w s)"
    then show ?thesis using b by simp
  qed
qed

lemma osmNodes_addSegment: "osmNodes (addSegment cd speed ow seg s) = osmNodes s"
proof -
  from addSegment_cases [of cd speed ow seg s] show ?thesis
  proof (elim disjE exE conjE)
    assume "addSegment cd speed ow seg s = s"
    then show ?thesis by simp
  next
    fix w assume "addSegment cd speed ow seg s = addEdge (osm_key (fst seg)) (osm_key (snd seg)) w s"
    then show ?thesis by (simp add: osmNodes_addEdge)
  next
    fix w assume "addSegment cd speed ow seg s =
          addEdge (osm_key (snd seg)) (osm_key (fst seg)) w
            (addEdge (osm_key (fst seg)) (osm_key (snd seg)) w s)"
    then show ?thesis by (simp add: osmNodes_addEdge)
  qed
qed

lemma nonneg_weights_put:
  assumes "nonneg_weights g" "\<forall>x \<in> set (neighbors n). num_le (Fin 0) (snd x)"
  shows "nonneg_weights (obj_put k n g)"
  unfolding nonneg_weights_def
proof (intro ballI)
  fix e x assume e: "e \<in> set (obj_put k n g)" and x: "x \<in> set (neighbors (snd e))"
  have "e = (k, n) \<or> e \<in> set g" using e set_obj_put [of k n g] by auto
  then show "num_le (Fin 0) (snd x)"
  proof
    assume "e = (k, n)"
    then show ?thesis using assms(2) x by simp
  next
    assume "e \<in> set g"
    then show ?thesis using assms(1) x unfolding nonneg_weights_def by blast
  qed
qed

lemma nonneg_addNode: "nonneg_weights (nodes s) \<Longrightarrow> nonneg_weights (nodes (addNode i p s))"
  by (cases "map_of (nodes s) i") (simp_all add: addNode_def nonneg_weights_put)

lemma nonneg_addEdge:
  assumes "nonneg_weights (nodes s)" "num_le (Fin 0) w"
  shows "nonneg_weights (nodes (addEdge a b w s))"
proof (cases "map_of (nodes s) a = None \<or> map_of (nodes s) b = None")
  case True
  then show ?thesis using assms by (simp add: addEdge_None)
next
  case False
  then obtain n1 n2 where n: "map_of (nodes s) a = Some n1" "map_of (nodes s) b = Some n2"
    by auto
  have "(a, n1) \<in> set (nodes s)" using n(1) by (rule map_of_SomeD)
  then have o: "\<forall>x \<in> set (neighbors n1). num_le (Fin 0) (snd x)"
    using assms(1) unfolding nonneg_weights_def by fastforce
  have "\<forall>x \<in> set (obj_put b w (neighbors n1)). num_le (Fin 0) (snd x)"
  proof
    fix x assume "x \<in> set (obj_put b w (neighbors n1))"
    then have "x = (b, w) \<or> x \<in> set (neighbors n1)"
      using set_obj_put [of b w "neighbors n1"] by auto
    then show "num_le (Fin 0) (snd x)" using o assms(2) by auto
  qed
  then show ?thesis
    using assms(1) by (simp add: addEdge_Some [OF n] nonneg_weights_put)
qed

lemma nonneg_addSegment:
  assumes "nonneg_weights (nodes s)" "\<forall>p q. 0 \<le> cd p q"
  shows "nonneg_weights (nodes (addSegment cd speed ow seg s))"
proof -
  have w: "num_le (Fin 0) (edgeWeight (cd p q) speed)" for p q
    using assms(2) by (simp add: edgeWeight_nonneg)
  have a: "nonneg_weights (nodes (addEdge x y (edgeWeight (cd p q) speed) s))" for x y p q
    by (rule nonneg_addEdge [OF assms(1) w])
  have b: "nonneg_weights (nodes (addEdge x' y' (edgeWeight (cd p q) speed)
             (addEdge x y (edgeWeight (cd p q) speed) s)))" for x y x' y' p q
    by (rule nonneg_addEdge [OF a w])
  from addSegment_cases [of cd speed ow seg s] show ?thesis
  proof (elim disjE exE conjE)
    assume "addSegment cd speed ow seg s = s"
    then show ?thesis using assms by simp
  next
    fix w assume "addSegment cd speed ow seg s = addEdge (osm_key (fst seg)) (osm_key (snd seg)) w s"
      and "w = edgeWeight (cd (osm_point (the (map_of (osmNodes s) (show_nat (fst seg)))))
                              (osm_point (the (map_of (osmNodes s) (show_nat (snd seg)))))) speed"
    then show ?thesis using a by simp
  next
    fix w assume "addSegment cd speed ow seg s =
          addEdge (osm_key (snd seg)) (osm_key (fst seg)) w
            (addEdge (osm_key (fst seg)) (osm_key (snd seg)) w s)"
      and "w = edgeWeight (cd (osm_point (the (map_of (osmNodes s) (show_nat (fst seg)))))
                              (osm_point (the (map_of (osmNodes s) (show_nat (snd seg)))))) speed"
    then show ?thesis using b by simp
  qed
qed

lemma validate_cases:
  "nodes (validateGraphConnectivity s) = nodes s \<or>
   (\<exists>start n0 rest. nodes s = (start, n0) # rest \<and> start \<noteq> [] \<and>
      (distinct (map fst (nodes s)) \<longrightarrow>
         nodes (validateGraphConnectivity s) =
           filter (\<lambda>e. fst e \<in> set (bfs (nodes s) [start] [start])) (nodes s)))"
proof (cases "nodes s")
  case Nil
  then show ?thesis by (simp add: validateGraphConnectivity_def obj_keys_def)
next
  case (Cons e rest)
  obtain start n0 where e: "e = (start, n0)" by (cases e)
  show ?thesis
  proof (cases "start = []")
    case True
    then show ?thesis using Cons e by (simp add: validateGraphConnectivity_def obj_keys_def)
  next
    case False
    have "distinct (map fst (nodes s)) \<longrightarrow>
         nodes (validateGraphConnectivity s) =
           filter (\<lambda>e. fst e \<in> set (bfs (nodes s) [start] [start])) (nodes s)"
      using validateGraphConnectivity_nodes [of s start n0 rest] Cons e False by blast
    then show ?thesis using Cons e False by blast
  qed
qed

lemma other_fields_validate:
  "osmNodes (validateGraphConnectivity s) = osmNodes s \<and>
   osmWays (validateGraphConnectivity s) = osmWays s \<and>
   isInitialized (validateGraphConnectivity s) = isInitialized s"
  by (simp add: validateGraphConnectivity_def Let_def split: list.splits)

lemma start_in_bfs: "start \<in> set (bfs g [start] [start])"
  using bfs_closed_aux [of "[start]" "[start]" g] by simp

lemma graph_inv_filter_bfs:
  assumes "graph_inv g"
  shows "graph_inv (filter (\<lambda>e. fst e \<in> set (bfs g [start] [start])) g)"
proof -
  let ?V = "set (bfs g [start] [start])"
  let ?r = "filter (\<lambda>e. fst e \<in> ?V) g"
  have d: "distinct (map fst g)" and cg: "closed_graph g" and ne: "\<forall>k \<in> fst ` set g. k \<noteq> []"
    using assms by (simp_all add: graph_inv_def)
  have cl: "\<forall>u \<in> ?V. \<forall>n. map_of g u = Some n \<longrightarrow> fst ` set (neighbors n) \<subseteq> ?V"
    using bfs_closed_aux [of "[start]" "[start]" g] by simp
  have d': "distinct (map fst ?r)" using d by (simp add: distinct_map_filter)
  have c': "closed_graph ?r"
    unfolding closed_graph_def
  proof (intro ballI)
    fix e x assume e: "e \<in> set ?r" and x: "x \<in> set (neighbors (snd e))"
    then have eg: "e \<in> set g" and ev: "fst e \<in> ?V" by auto
    have "map_of g (fst e) = Some (snd e)" using d eg by (cases e) simp
    then have v: "fst x \<in> ?V" using cl ev x by blast
    have "fst x \<in> fst ` set g" using cg eg x unfolding closed_graph_def by blast
    then obtain e' where "e' \<in> set g" "fst e' = fst x" by auto
    then have "e' \<in> set ?r" using v by simp
    then show "fst x \<in> fst ` set ?r" using \<open>fst e' = fst x\<close> by (metis imageI)
  qed
  have n': "\<forall>k \<in> fst ` set ?r. k \<noteq> []" using ne by auto
  show ?thesis unfolding graph_inv_def using d' c' n' by blast
qed

lemma graph_inv_validate:
  assumes "graph_inv (nodes s)"
  shows "graph_inv (nodes (validateGraphConnectivity s))"
proof -
  have d: "distinct (map fst (nodes s))" using assms by (simp add: graph_inv_def)
  from validate_cases [of s] show ?thesis
  proof (elim disjE exE conjE)
    assume "nodes (validateGraphConnectivity s) = nodes s"
    then show ?thesis using assms by simp
  next
    fix start n0 rest
    assume "distinct (map fst (nodes s)) \<longrightarrow>
         nodes (validateGraphConnectivity s) =
           filter (\<lambda>e. fst e \<in> set (bfs (nodes s) [start] [start])) (nodes s)"
    then have "nodes (validateGraphConnectivity s) =
           filter (\<lambda>e. fst e \<in> set (bfs (nodes s) [start] [start])) (nodes s)"
      using d by blast
    then show ?thesis using graph_inv_filter_bfs [OF assms] by simp
  qed
qed

lemma nonneg_filter: "nonneg_weights g \<Longrightarrow> nonneg_weights (filter P g)"
  unfolding nonneg_weights_def by (metis filter_is_subset subsetD)

lemma nonneg_validate:
  assumes "nonneg_weights (nodes s)" "distinct (map fst (nodes s))"
  shows "nonneg_weights (nodes (validateGraphConnectivity s))"
proof -
  from validate_cases [of s] show ?thesis
  proof (elim disjE exE conjE)
    assume "nodes (validateGraphConnectivity s) = nodes s"
    then show ?thesis using assms by simp
  next
    fix start n0 rest
    assume "distinct (map fst (nodes s)) \<longrightarrow>
         nodes (validateGraphConnectivity s) =
           filter (\<lambda>e. fst e \<in> set (bfs (nodes s) [start] [start])) (nodes s)"
    then have "nodes (validateGraphConnectivity s) =
           filter (\<lambda>e. fst e \<in> set (bfs (nodes s) [start] [start])) (nodes s)"
      using assms(2) by blast
    then show ?thesis using nonneg_filter [OF assms(1)] by simp
  qed
qed

lemma nonempty_validate:
  assumes "nodes s \<noteq> []" "distinct (map fst (nodes s))"
  shows "nodes (validateGraphConnectivity s) \<noteq> []"
proof -
  from validate_cases [of s] show ?thesis
  proof (elim disjE exE conjE)
    assume "nodes (validateGraphConnectivity s) = nodes s"
    then show ?thesis using assms by simp
  next
    fix start n0 rest
    assume st: "nodes s = (start, n0) # rest"
      and "distinct (map fst (nodes s)) \<longrightarrow>
         nodes (validateGraphConnectivity s) =
           filter (\<lambda>e. fst e \<in> set (bfs (nodes s) [start] [start])) (nodes s)"
    then have r: "nodes (validateGraphConnectivity s) =
           filter (\<lambda>e. fst e \<in> set (bfs (nodes s) [start] [start])) (nodes s)"
      using assms(2) by blast
    have "(start, n0) \<in> set (nodes (validateGraphConnectivity s))"
      unfolding r using st start_in_bfs [of start "nodes s"] by simp
    then show ?thesis by auto
  qed
qed

section \<open>The folds of the builder\<close>

lemma osm_key_nonempty: "osm_key n \<noteq> []"
  by (simp add: osm_key_def)

lemma other_fields_addNode:
  "osmNodes (addNode i p s) = osmNodes s \<and> osmWays (addNode i p s) = osmWays s \<and>
   isInitialized (addNode i p s) = isInitialized s"
  by (cases "map_of (nodes s) i") (simp_all add: addNode_def)

lemma nonempty_addNode: "nodes (addNode i p s) \<noteq> []"
proof (cases "map_of (nodes s) i")
  case None
  have "i \<in> fst ` set (obj_put i \<lparr>ident = i, point = p, neighbors = []\<rparr> (nodes s))"
    by (simp add: keys_obj_put)
  then have "obj_put i \<lparr>ident = i, point = p, neighbors = []\<rparr> (nodes s) \<noteq> []" by auto
  then show ?thesis using None by (simp add: addNode_def)
next
  case (Some n)
  then have "nodes s \<noteq> []" by auto
  then show ?thesis using Some by (simp add: addNode_def)
qed

lemma fold_addNode_inv:
  assumes "graph_inv (nodes s)" "nonneg_weights (nodes s)"
  shows "graph_inv (nodes (fold (\<lambda>osmNode. addNode (osm_key (osm_id osmNode)) (osm_point osmNode)) xs s))
       \<and> nonneg_weights (nodes (fold (\<lambda>osmNode. addNode (osm_key (osm_id osmNode)) (osm_point osmNode)) xs s))
       \<and> osmNodes (fold (\<lambda>osmNode. addNode (osm_key (osm_id osmNode)) (osm_point osmNode)) xs s) = osmNodes s
       \<and> osmWays (fold (\<lambda>osmNode. addNode (osm_key (osm_id osmNode)) (osm_point osmNode)) xs s) = osmWays s
       \<and> isInitialized (fold (\<lambda>osmNode. addNode (osm_key (osm_id osmNode)) (osm_point osmNode)) xs s) = isInitialized s
       \<and> (xs \<noteq> [] \<longrightarrow> nodes (fold (\<lambda>osmNode. addNode (osm_key (osm_id osmNode)) (osm_point osmNode)) xs s) \<noteq> [])
       \<and> (nodes s \<noteq> [] \<longrightarrow> nodes (fold (\<lambda>osmNode. addNode (osm_key (osm_id osmNode)) (osm_point osmNode)) xs s) \<noteq> [])
       \<and> (xs = [] \<longrightarrow> nodes (fold (\<lambda>osmNode. addNode (osm_key (osm_id osmNode)) (osm_point osmNode)) xs s) = nodes s)"
  using assms
proof (induction xs arbitrary: s)
  case Nil
  then show ?case by simp
next
  case (Cons x xs)
  let ?s1 = "addNode (osm_key (osm_id x)) (osm_point x) s"
  have a: "graph_inv (nodes ?s1)" using Cons.prems(1) osm_key_nonempty by (rule graph_inv_addNode)
  have b: "nonneg_weights (nodes ?s1)" using Cons.prems(2) by (rule nonneg_addNode)
  have c: "nodes ?s1 \<noteq> []" by (rule nonempty_addNode)
  show ?case using Cons.IH [OF a b] c other_fields_addNode [of "osm_key (osm_id x)" "osm_point x" s]
    by simp
qed

lemma frame_addEdge:
  "osmNodes (addEdge a b w s) = osmNodes s \<and> osmWays (addEdge a b w s) = osmWays s \<and>
   isInitialized (addEdge a b w s) = isInitialized s \<and>
   (nodes (addEdge a b w s) = []) = (nodes s = [])"
proof (cases "map_of (nodes s) a = None \<or> map_of (nodes s) b = None")
  case True
  then show ?thesis by (simp add: addEdge_None)
next
  case False
  then obtain n1 n2 where n: "map_of (nodes s) a = Some n1" "map_of (nodes s) b = Some n2"
    by auto
  have k: "fst ` set (nodes (addEdge a b w s)) = fst ` set (nodes s)" by (rule keys_addEdge)
  have "(nodes (addEdge a b w s) = []) = (nodes s = [])"
    using k by (metis image_is_empty set_empty)
  then show ?thesis by (simp add: addEdge_Some [OF n])
qed

lemma frame_addSegment:
  "osmNodes (addSegment cd speed ow seg s) = osmNodes s \<and>
   osmWays (addSegment cd speed ow seg s) = osmWays s \<and>
   isInitialized (addSegment cd speed ow seg s) = isInitialized s \<and>
   (nodes (addSegment cd speed ow seg s) = []) = (nodes s = [])"
proof -
  from addSegment_cases [of cd speed ow seg s] show ?thesis
  proof (elim disjE exE conjE)
    assume "addSegment cd speed ow seg s = s"
    then show ?thesis by simp
  next
    fix w assume "addSegment cd speed ow seg s = addEdge (osm_key (fst seg)) (osm_key (snd seg)) w s"
    then show ?thesis by (simp add: frame_addEdge)
  next
    fix w assume "addSegment cd speed ow seg s =
          addEdge (osm_key (snd seg)) (osm_key (fst seg)) w
            (addEdge (osm_key (fst seg)) (osm_key (snd seg)) w s)"
    then show ?thesis by (simp add: frame_addEdge)
  qed
qed

lemma fold_addSegment_inv:
  assumes "graph_inv (nodes s)"
  shows "graph_inv (nodes (fold (addSegment cd speed ow) segs s)) \<and>
         same_frame (fold (addSegment cd speed ow) segs s) s \<and>
         ((\<forall>p q. 0 \<le> cd p q) \<and> nonneg_weights (nodes s) \<longrightarrow>
            nonneg_weights (nodes (fold (addSegment cd speed ow) segs s)))"
  using assms
proof (induction segs arbitrary: s)
  case Nil
  then show ?case by (simp add: same_frame_def)
next
  case (Cons seg segs)
  let ?s1 = "addSegment cd speed ow seg s"
  have a: "graph_inv (nodes ?s1)" using Cons.prems by (rule graph_inv_addSegment)
  have f: "same_frame ?s1 s" using frame_addSegment [of cd speed ow seg s] by (simp add: same_frame_def)
  have n: "(\<forall>p q. 0 \<le> cd p q) \<and> nonneg_weights (nodes s) \<longrightarrow> nonneg_weights (nodes ?s1)"
    using nonneg_addSegment by blast
  show ?case using Cons.IH [OF a] f n by (auto simp: same_frame_def)
qed

lemma addWay_inv:
  assumes "graph_inv (nodes s)"
  shows "graph_inv (nodes (addWay cd way s)) \<and> same_frame (addWay cd way s) s \<and>
         ((\<forall>p q. 0 \<le> cd p q) \<and> nonneg_weights (nodes s) \<longrightarrow>
            nonneg_weights (nodes (addWay cd way s)))"
proof (cases "tag (way_tags way) ''highway''")
  case None
  then show ?thesis using assms by (simp add: addWay_def same_frame_def)
next
  case (Some roadType)
  then have "addWay cd way s = fold (addSegment cd (getSpeedLimit (way_tags way))
      (isOneWayStreet (way_tags way) roadType)) (zip (way_nodes way) (tl (way_nodes way))) s"
    by (simp add: addWay_def)
  then show ?thesis using fold_addSegment_inv [OF assms] by simp
qed

lemma fold_addWay_inv:
  assumes "graph_inv (nodes s)"
  shows "graph_inv (nodes (fold (addWay cd) ways s)) \<and> same_frame (fold (addWay cd) ways s) s \<and>
         ((\<forall>p q. 0 \<le> cd p q) \<and> nonneg_weights (nodes s) \<longrightarrow>
            nonneg_weights (nodes (fold (addWay cd) ways s)))"
  using assms
proof (induction ways arbitrary: s)
  case Nil
  then show ?case by (simp add: same_frame_def)
next
  case (Cons way ways)
  let ?s1 = "addWay cd way s"
  have a: "graph_inv (nodes ?s1)" "same_frame ?s1 s"
    "(\<forall>p q. 0 \<le> cd p q) \<and> nonneg_weights (nodes s) \<longrightarrow> nonneg_weights (nodes ?s1)"
    using addWay_inv [OF Cons.prems, of cd way] by simp_all
  show ?case using Cons.IH [OF a(1)] a(2,3) by (auto simp: same_frame_def)
qed

lemma nodes_processElement: "nodes (processElement e s) = nodes s"
  by (cases e) (simp_all add: processElement_def)

lemma nodes_stored: "nodes (stored elements s) = []"
proof -
  have "nodes (fold processElement elements t) = nodes t" for t
    by (induction elements arbitrary: t) (simp_all add: nodes_processElement)
  then show ?thesis by (simp add: stored_def)
qed

lemma graph_inv_empty: "graph_inv []"
  by (simp add: graph_inv_def closed_graph_def)

lemma built_facts:
  "graph_inv (nodes (processOSMData cd elements s)) \<and>
   osmNodes (processOSMData cd elements s) = osmNodes (stored elements s) \<and>
   osmWays (processOSMData cd elements s) = osmWays (stored elements s) \<and>
   isInitialized (processOSMData cd elements s) \<and>
   ((nodes (processOSMData cd elements s) = []) = (osmNodes (stored elements s) = [])) \<and>
   ((\<forall>p q. 0 \<le> cd p q) \<longrightarrow> nonneg_weights (nodes (processOSMData cd elements s)))"
proof -
  let ?s1 = "stored elements s"
  let ?f = "\<lambda>osmNode. addNode (osm_key (osm_id osmNode)) (osm_point osmNode)"
  let ?s2 = "fold ?f (obj_values (osmNodes ?s1)) ?s1"
  let ?s3 = "fold (addWay cd) (obj_values (osmWays ?s2)) ?s2"
  let ?s4 = "validateGraphConnectivity ?s3"
  have e: "processOSMData cd elements s = ?s4\<lparr>isInitialized := True\<rparr>"
    by (simp add: processOSMData_def buildGraphFromOSM_def stored_def Let_def)
  have i1: "graph_inv (nodes ?s1)" "nonneg_weights (nodes ?s1)"
    by (simp_all add: nodes_stored graph_inv_empty nonneg_weights_def)
  note a = fold_addNode_inv [OF i1, of "obj_values (osmNodes ?s1)"]
  have a1: "graph_inv (nodes ?s2)" and a2: "nonneg_weights (nodes ?s2)"
    and a3: "osmNodes ?s2 = osmNodes ?s1" and a4: "osmWays ?s2 = osmWays ?s1"
    and a5: "(nodes ?s2 = []) = (osmNodes ?s1 = [])"
    using a by (auto simp: nodes_stored obj_values_def)
  note b = fold_addWay_inv [OF a1, of cd "obj_values (osmWays ?s2)"]
  have b1: "graph_inv (nodes ?s3)" and b2: "same_frame ?s3 ?s2"
    and b3: "(\<forall>p q. 0 \<le> cd p q) \<longrightarrow> nonneg_weights (nodes ?s3)"
    using b a2 by blast+
  have d3: "distinct (map fst (nodes ?s3))" using b1 by (simp add: graph_inv_def)
  have c1: "graph_inv (nodes ?s4)" using b1 by (rule graph_inv_validate)
  have c2: "(\<forall>p q. 0 \<le> cd p q) \<longrightarrow> nonneg_weights (nodes ?s4)"
    using b3 d3 nonneg_validate by blast
  have c3: "osmNodes ?s4 = osmNodes ?s1" "osmWays ?s4 = osmWays ?s1"
    using other_fields_validate [of ?s3] b2 a3 a4 by (simp_all add: same_frame_def)
  have c4: "(nodes ?s4 = []) = (osmNodes ?s1 = [])"
  proof
    assume "nodes ?s4 = []"
    then have "nodes ?s3 = []" using nonempty_validate [OF _ d3] by blast
    then show "osmNodes ?s1 = []" using b2 a5 by (simp add: same_frame_def)
  next
    assume "osmNodes ?s1 = []"
    then have "nodes ?s3 = []" using b2 a5 by (simp add: same_frame_def)
    then show "nodes ?s4 = []" by (simp add: validateGraphConnectivity_def obj_keys_def)
  qed
  show ?thesis unfolding e using c1 c2 c3 c4 by simp
qed

lemma processOSMData_unpruned:
  "processOSMData cd elements s =
     (validateGraphConnectivity (unpruned cd elements s))\<lparr>isInitialized := True\<rparr>"
  by (simp add: processOSMData_def buildGraphFromOSM_def unpruned_def stored_def Let_def)

lemma graph_inv_unpruned: "graph_inv (nodes (unpruned cd elements s))"
proof -
  let ?s1 = "stored elements s"
  let ?f = "\<lambda>osmNode. addNode (osm_key (osm_id osmNode)) (osm_point osmNode)"
  let ?s2 = "fold ?f (obj_values (osmNodes ?s1)) ?s1"
  have i1: "graph_inv (nodes ?s1)" "nonneg_weights (nodes ?s1)"
    by (simp_all add: nodes_stored graph_inv_empty nonneg_weights_def)
  have a1: "graph_inv (nodes ?s2)"
    using fold_addNode_inv [OF i1, of "obj_values (osmNodes ?s1)"] by blast
  show ?thesis
    unfolding unpruned_def Let_def using fold_addWay_inv [OF a1] by blast
qed

lemma nodes_pruned:
  "nodes (processOSMData cd elements s) =
     (case nodes (unpruned cd elements s) of
        [] \<Rightarrow> []
      | e # rest \<Rightarrow>
          filter (\<lambda>x. fst x \<in> set (bfs (nodes (unpruned cd elements s)) [fst e] [fst e]))
                 (nodes (unpruned cd elements s)))"
proof (cases "nodes (unpruned cd elements s)")
  case Nil
  then show ?thesis
    by (simp add: processOSMData_unpruned validateGraphConnectivity_def obj_keys_def)
next
  case (Cons e rest)
  obtain start n0 where e: "e = (start, n0)" by (cases e)
  have inv: "graph_inv (nodes (unpruned cd elements s))" by (rule graph_inv_unpruned)
  then have d: "distinct (map fst (nodes (unpruned cd elements s)))" by (simp add: graph_inv_def)
  have "start \<in> fst ` set (nodes (unpruned cd elements s))" using Cons e by simp
  then have ne: "start \<noteq> []" using inv unfolding graph_inv_def by blast
  have st: "nodes (unpruned cd elements s) = (start, n0) # rest" using Cons e by simp
  show ?thesis
    using validateGraphConnectivity_nodes [OF d st ne]
    by (simp add: processOSMData_unpruned st)
qed


lemma linked_addNeighbor:
  assumes "map_of g a = Some n"
  shows "linked (addNeighbor a b g) x y = (linked g x y \<or> (x = a \<and> y = b))"
proof (cases "b \<in> set (r_neighbors n)")
  case True
  then have e: "addNeighbor a b g = g" using assms by (simp add: addNeighbor_def)
  have l: "linked g a b" using True assms by (simp add: linked_def)
  show ?thesis unfolding e using l by blast
next
  case False
  then have e: "addNeighbor a b g = obj_put a (n\<lparr>r_neighbors := r_neighbors n @ [b]\<rparr>) g"
    using assms by (simp add: addNeighbor_def)
  show ?thesis
  proof (cases "x = a")
    case True
    have "linked (addNeighbor a b g) a y = (y \<in> set (r_neighbors n) \<or> y = b)"
      unfolding e linked_def by (simp add: map_of_obj_put disj_commute)
    moreover have "linked g a y = (y \<in> set (r_neighbors n))"
      unfolding linked_def using assms by simp
    ultimately show ?thesis unfolding True by blast
  next
    case False
    have "linked (addNeighbor a b g) x y = linked g x y"
      unfolding e linked_def using False by (simp add: map_of_obj_put)
    then show ?thesis using False by blast
  qed
qed

lemma dom_addNeighbor: "(map_of (addNeighbor a b g) x = None) = (map_of g x = None)"
proof (cases "map_of g a")
  case None
  then show ?thesis by (simp add: addNeighbor_def)
next
  case (Some n)
  show ?thesis
  proof (cases "b \<in> set (r_neighbors n)")
    case True
    then show ?thesis using Some by (simp add: addNeighbor_def)
  next
    case False
    then have e: "addNeighbor a b g = obj_put a (n\<lparr>r_neighbors := r_neighbors n @ [b]\<rparr>) g"
      using Some by (simp add: addNeighbor_def)
    show ?thesis
    proof (cases "x = a")
      case True
      then show ?thesis unfolding e using Some by (simp add: map_of_obj_put)
    next
      case False
      then show ?thesis unfolding e by (simp add: map_of_obj_put)
    qed
  qed
qed

lemma connectSegment_oneway:
  assumes "map_of g (show_nat a) = Some na" "map_of g (show_nat b) = Some nb"
  shows "connectSegment True (a, b) g = addNeighbor (show_nat a) (show_nat b) g"
  unfolding connectSegment_def Let_def using assms by simp

lemma connectSegment_twoway:
  assumes "map_of g (show_nat a) = Some na" "map_of g (show_nat b) = Some nb"
  shows "connectSegment False (a, b) g =
      addNeighbor (show_nat b) (show_nat a) (addNeighbor (show_nat a) (show_nat b) g)"
  unfolding connectSegment_def Let_def using assms by simp

lemma linked_connectSegment_oneway:
  assumes "map_of g (show_nat a) = Some na" "map_of g (show_nat b) = Some nb"
  shows "linked (connectSegment True (a, b) g) x y =
         (linked g x y \<or> (x = show_nat a \<and> y = show_nat b))"
  unfolding connectSegment_oneway [OF assms] by (rule linked_addNeighbor [OF assms(1)])

lemma linked_connectSegment_twoway:
  assumes "map_of g (show_nat a) = Some na" "map_of g (show_nat b) = Some nb"
  shows "linked (connectSegment False (a, b) g) x y =
         (linked g x y \<or> (x = show_nat a \<and> y = show_nat b) \<or> (x = show_nat b \<and> y = show_nat a))"
proof -
  have "map_of (addNeighbor (show_nat a) (show_nat b) g) (show_nat b) \<noteq> None"
    unfolding dom_addNeighbor using assms(2) by simp
  then obtain nb' where nb': "map_of (addNeighbor (show_nat a) (show_nat b) g) (show_nat b) = Some nb'"
    by blast
  show ?thesis
    unfolding connectSegment_twoway [OF assms] linked_addNeighbor [OF nb']
      linked_addNeighbor [OF assms(1)]
    by blast
qed

section \<open>Facts about distances\<close>

lemma cos_cos_halves:
  fixes A B :: real
  shows "cos A * cos B = (cos ((A + B) / 2))\<^sup>2 - (sin ((A - B) / 2))\<^sup>2"
proof -
  have e1: "2 * ((A + B) / 2) = A + B" and e2: "2 * ((A - B) / 2) = A - B" by simp_all
  have 1: "cos (A + B) = 2 * (cos ((A + B) / 2))\<^sup>2 - 1"
    using cos_double_cos [of "(A + B) / 2"] by (simp only: e1)
  have 2: "cos (A - B) = 1 - 2 * (sin ((A - B) / 2))\<^sup>2"
    using cos_double_sin [of "(A - B) / 2"] by (simp only: e2)
  have "cos A * cos B = (cos (A - B) + cos (A + B)) / 2"
    by (rule cos_times_cos)
  then show ?thesis using 1 2 by simp
qed

lemma convex_unit:
  fixes u v s :: real
  assumes "0 \<le> u" "u \<le> 1" "0 \<le> v" "v \<le> 1" "0 \<le> s" "s \<le> 1"
  shows "0 \<le> u + (v - u) * s" "u + (v - u) * s \<le> 1"
proof -
  have e: "u + (v - u) * s = u * (1 - s) + v * s" by (simp add: algebra_simps)
  have "0 \<le> u * (1 - s)" "0 \<le> v * s" using assms by simp_all
  then show "0 \<le> u + (v - u) * s" using e by simp
  have "u * (1 - s) \<le> 1 * (1 - s)" using assms by (intro mult_right_mono) simp_all
  moreover have "v * s \<le> 1 * s" using assms by (intro mult_right_mono) simp_all
  ultimately show "u + (v - u) * s \<le> 1" using e by simp
qed

lemma haversine_a_range: "0 \<le> haversine_a p q \<and> haversine_a p q \<le> 1"
proof -
  define A where "A = latitude p * pi / 180"
  define B where "B = latitude q * pi / 180"
  define L where "L = (longitude q - longitude p) * pi / 180"
  define u where "u = (sin ((A - B) / 2))\<^sup>2"
  define v where "v = (cos ((A + B) / 2))\<^sup>2"
  define s where "s = (sin (L / 2))\<^sup>2"
  have d: "(latitude q - latitude p) * pi / 180 = B - A"
    by (simp add: A_def B_def algebra_simps diff_divide_distrib)
  have su: "sin ((B - A) / 2) * sin ((B - A) / 2) = u"
  proof -
    have "(B - A) / 2 = - ((A - B) / 2)" by (simp add: field_simps)
    then have "sin ((B - A) / 2) = - sin ((A - B) / 2)"
      using sin_minus [of "(A - B) / 2"] by presburger
    then show ?thesis by (simp add: u_def power2_eq_square)
  qed
  have a: "haversine_a p q = u + (v - u) * s"
  proof -
    have "haversine_a p q = sin ((B - A) / 2) * sin ((B - A) / 2) + cos A * cos B * (sin (L / 2) * sin (L / 2))"
      unfolding haversine_a_def Let_def d by (simp add: A_def B_def L_def algebra_simps)
    also have "\<dots> = u + (v - u) * s"
      unfolding su cos_cos_halves [of A B] by (simp add: u_def v_def s_def power2_eq_square)
    finally show ?thesis .
  qed
  have r: "0 \<le> u" "u \<le> 1" "0 \<le> v" "v \<le> 1" "0 \<le> s" "s \<le> 1"
    by (simp_all add: u_def v_def s_def abs_square_le_1)
  show ?thesis using convex_unit [OF r] a by simp
qed

lemma Math_atan2_nonneg: "0 \<le> y \<Longrightarrow> 0 \<le> x \<Longrightarrow> 0 \<le> Math_atan2 y x"
  by (simp add: Math_atan2_def)

lemma calculateDistance_haversine_nonneg: "0 \<le> calculateDistance_haversine p q"
proof -
  have "0 \<le> Math_atan2 (sqrt (haversine_a p q)) (sqrt (1 - haversine_a p q))"
    using haversine_a_range [of p q] by (intro Math_atan2_nonneg) simp_all
  then show ?thesis by (simp add: calculateDistance_haversine_def Let_def)
qed

lemma haversine_equator_degree:
  "calculateDistance_haversine \<lparr>latitude = 0, longitude = 0\<rparr> \<lparr>latitude = 0, longitude = 1\<rparr>
     = 6371000 * pi / 180"
proof -
  let ?x = "pi / 360"
  have x: "0 < ?x" "?x < pi / 2" by simp_all
  have s: "0 < sin ?x" using x by (intro sin_gt_zero) simp_all
  have c: "0 < cos ?x" using x by (intro cos_gt_zero) simp_all
  have a: "haversine_a \<lparr>latitude = 0, longitude = 0\<rparr> \<lparr>latitude = 0, longitude = 1\<rparr> = (sin ?x)\<^sup>2"
    by (simp add: haversine_a_def Let_def power2_eq_square)
  have 1: "sqrt ((sin ?x)\<^sup>2) = sin ?x" using s by simp
  have "1 - (sin ?x)\<^sup>2 = (cos ?x)\<^sup>2" by (simp add: cos_squared_eq)
  then have 2: "sqrt (1 - (sin ?x)\<^sup>2) = cos ?x" using c by simp
  have "sin ?x / cos ?x = tan ?x" by (simp add: tan_def)
  then have 3: "arctan (sin ?x / cos ?x) = ?x" using x by (simp add: arctan_tan)
  have "Math_atan2 (sin ?x) (cos ?x) = ?x" using c 3 by (simp add: Math_atan2_def)
  then show ?thesis
    unfolding calculateDistance_haversine_def Let_def a 1 2 by simp
qed

section \<open>Facts about the weights of a built graph\<close>

lemma edgeWeight_pos_speed:
  "0 < sp \<Longrightarrow> edgeWeight d sp = Fin (d / (sp * 1000 / 3600))"
  by (simp add: edgeWeight_def Let_def)

lemma segment_weightI:
  assumes "way \<in> set ways" "(a, b) \<in> set (zip (way_nodes way) (tl (way_nodes way)))"
    and "map_of ns (show_nat a) = Some na" "map_of ns (show_nat b) = Some nb"
    and "(x = osm_key a \<and> y = osm_key b) \<or> (x = osm_key b \<and> y = osm_key a)"
  shows "segment_weight cd ns ways x y
           (edgeWeight (cd (osm_point na) (osm_point nb)) (getSpeedLimit (way_tags way)))"
  unfolding segment_weight_def
  apply (rule bexI [OF _ assms(1)])
  apply (rule bexI [OF _ assms(2)])
  using assms(3,4,5) apply simp
  done

lemma segment_weightE:
  assumes "segment_weight cd ns ways x y w"
  obtains way a b na nb where "way \<in> set ways"
    "(a, b) \<in> set (zip (way_nodes way) (tl (way_nodes way)))"
    "map_of ns (show_nat a) = Some na" "map_of ns (show_nat b) = Some nb"
    "(x = osm_key a \<and> y = osm_key b) \<or> (x = osm_key b \<and> y = osm_key a)"
    "w = edgeWeight (cd (osm_point na) (osm_point nb)) (getSpeedLimit (way_tags way))"
proof -
  from assms obtain way seg where way: "way \<in> set ways"
    and seg: "seg \<in> set (zip (way_nodes way) (tl (way_nodes way)))"
    and c: "case map_of ns (show_nat (fst seg)) of
          None \<Rightarrow> False
        | Some node1Osm \<Rightarrow>
            (case map_of ns (show_nat (snd seg)) of
               None \<Rightarrow> False
             | Some node2Osm \<Rightarrow>
                 ((x = osm_key (fst seg) \<and> y = osm_key (snd seg)) \<or>
                  (x = osm_key (snd seg) \<and> y = osm_key (fst seg))) \<and>
                 w = edgeWeight (cd (osm_point node1Osm) (osm_point node2Osm))
                       (getSpeedLimit (way_tags way)))"
    unfolding segment_weight_def by blast
  obtain na where na: "map_of ns (show_nat (fst seg)) = Some na"
    using c by (cases "map_of ns (show_nat (fst seg))") simp_all
  obtain nb where nb: "map_of ns (show_nat (snd seg)) = Some nb"
    using c na by (cases "map_of ns (show_nat (snd seg))") simp_all
  have r: "(x = osm_key (fst seg) \<and> y = osm_key (snd seg)) \<or>
           (x = osm_key (snd seg) \<and> y = osm_key (fst seg))"
    and e: "w = edgeWeight (cd (osm_point na) (osm_point nb)) (getSpeedLimit (way_tags way))"
    using c na nb by simp_all
  have "(fst seg, snd seg) \<in> set (zip (way_nodes way) (tl (way_nodes way)))" using seg by simp
  then show ?thesis using that way na nb r e by blast
qed

lemma map_of_filter_key:
  "map_of (filter (\<lambda>e. P (fst e)) g) x = (if P x then map_of g x else None)"
  by (induction g) auto

lemma weightOf_addSegment_sound:
  assumes inv: "\<And>x y w. weightOf s x y = Some w \<Longrightarrow> segment_weight cd (osmNodes s) ways x y w"
    and way: "way \<in> set ways" and seg: "seg \<in> set (zip (way_nodes way) (tl (way_nodes way)))"
    and w: "weightOf (addSegment cd (getSpeedLimit (way_tags way)) ow seg s) x y = Some w"
  shows "segment_weight cd (osmNodes s) ways x y w"
proof -
  obtain a b where ab: "seg = (a, b)" by (cases seg)
  show ?thesis
  proof (cases "map_of (osmNodes s) (show_nat a) = None \<or> map_of (osmNodes s) (show_nat b) = None
     \<or> map_of (nodes s) (osm_key a) = None \<or> map_of (nodes s) (osm_key b) = None")
    case True
    then have "addSegment cd (getSpeedLimit (way_tags way)) ow (a, b) s = s"
      by (rule addSegment_absent)
    then show ?thesis using w inv ab by simp
  next
    case False
    then obtain na nb ga gb where p: "map_of (osmNodes s) (show_nat a) = Some na"
      "map_of (osmNodes s) (show_nat b) = Some nb"
      "map_of (nodes s) (osm_key a) = Some ga" "map_of (nodes s) (osm_key b) = Some gb"
      by auto
    let ?ew = "edgeWeight (cd (osm_point na) (osm_point nb)) (getSpeedLimit (way_tags way))"
    have sw: "(x = osm_key a \<and> y = osm_key b) \<or> (x = osm_key b \<and> y = osm_key a) \<Longrightarrow>
       segment_weight cd (osmNodes s) ways x y ?ew"
      using segment_weightI [OF way seg [unfolded ab] p(1,2)] by blast
    show ?thesis
    proof (cases ow)
      case True
      note e = weightOf_addSegment_oneway [OF p, of cd "getSpeedLimit (way_tags way)" x y]
      show ?thesis
      proof (cases "x = osm_key a \<and> y = osm_key b")
        case c: True
        have "weightOf (addSegment cd (getSpeedLimit (way_tags way)) True (a, b) s) x y = Some ?ew"
          unfolding e using c by (rule if_P)
        then have "w = ?ew" using w ab True by simp
        then show ?thesis using sw c by blast
      next
        case c: False
        have "weightOf (addSegment cd (getSpeedLimit (way_tags way)) True (a, b) s) x y = weightOf s x y"
          unfolding e using c by (rule if_not_P)
        then have "weightOf s x y = Some w" using w ab True by simp
        then show ?thesis by (rule inv)
      qed
    next
      case False
      note e = weightOf_addSegment_twoway [OF p, of cd "getSpeedLimit (way_tags way)" x y]
      show ?thesis
      proof (cases "(x = osm_key a \<and> y = osm_key b) \<or> (x = osm_key b \<and> y = osm_key a)")
        case c: True
        have "weightOf (addSegment cd (getSpeedLimit (way_tags way)) False (a, b) s) x y = Some ?ew"
          unfolding e using c by (rule if_P)
        then have "w = ?ew" using w ab False by simp
        then show ?thesis using sw c by blast
      next
        case c: False
        have "weightOf (addSegment cd (getSpeedLimit (way_tags way)) False (a, b) s) x y = weightOf s x y"
          unfolding e using c by (rule if_not_P)
        then have "weightOf s x y = Some w" using w ab False by simp
        then show ?thesis by (rule inv)
      qed
    qed
  qed
qed

lemma fold_addSegment_sound:
  assumes inv: "\<And>x y w. weightOf s x y = Some w \<Longrightarrow> segment_weight cd (osmNodes s) ways x y w"
    and way: "way \<in> set ways" and segs: "set segs \<subseteq> set (zip (way_nodes way) (tl (way_nodes way)))"
  shows "osmNodes (fold (addSegment cd (getSpeedLimit (way_tags way)) ow) segs s) = osmNodes s \<and>
         (\<forall>x y w. weightOf (fold (addSegment cd (getSpeedLimit (way_tags way)) ow) segs s) x y = Some w
             \<longrightarrow> segment_weight cd (osmNodes s) ways x y w)"
proof (rule fold_invariant
    [where P = "\<lambda>t::PathFinder. osmNodes t = osmNodes s \<and>
                  (\<forall>x y w. weightOf t x y = Some w \<longrightarrow> segment_weight cd (osmNodes s) ways x y w)"])
  show "osmNodes s = osmNodes s \<and>
        (\<forall>x y w. weightOf s x y = Some w \<longrightarrow> segment_weight cd (osmNodes s) ways x y w)"
    using inv by blast
next
  fix seg and t :: PathFinder
  assume seg: "seg \<in> set segs"
    and t: "osmNodes t = osmNodes s \<and>
        (\<forall>x y w. weightOf t x y = Some w \<longrightarrow> segment_weight cd (osmNodes s) ways x y w)"
  have i: "\<And>x y w. weightOf t x y = Some w \<Longrightarrow> segment_weight cd (osmNodes t) ways x y w"
    using t by simp
  have m: "seg \<in> set (zip (way_nodes way) (tl (way_nodes way)))" using seg segs by blast
  have "\<And>x y w. weightOf (addSegment cd (getSpeedLimit (way_tags way)) ow seg t) x y = Some w
      \<Longrightarrow> segment_weight cd (osmNodes t) ways x y w"
    using weightOf_addSegment_sound [OF i way m] by blast
  then show "osmNodes (addSegment cd (getSpeedLimit (way_tags way)) ow seg t) = osmNodes s \<and>
        (\<forall>x y w. weightOf (addSegment cd (getSpeedLimit (way_tags way)) ow seg t) x y = Some w
            \<longrightarrow> segment_weight cd (osmNodes s) ways x y w)"
    using t by (simp add: osmNodes_addSegment)
qed

lemma addWay_sound:
  assumes inv: "\<And>x y w. weightOf s x y = Some w \<Longrightarrow> segment_weight cd (osmNodes s) ways x y w"
    and way: "way \<in> set ways"
  shows "osmNodes (addWay cd way s) = osmNodes s \<and>
         (\<forall>x y w. weightOf (addWay cd way s) x y = Some w
             \<longrightarrow> segment_weight cd (osmNodes s) ways x y w)"
proof (cases "tag (way_tags way) ''highway''")
  case None
  then show ?thesis using inv by (simp add: addWay_def)
next
  case (Some roadType)
  then have e: "addWay cd way s = fold (addSegment cd (getSpeedLimit (way_tags way))
      (isOneWayStreet (way_tags way) roadType)) (zip (way_nodes way) (tl (way_nodes way))) s"
    by (simp add: addWay_def)
  show ?thesis unfolding e by (rule fold_addSegment_sound [OF inv way]) simp_all
qed

lemma fold_addWay_sound:
  assumes inv: "\<And>x y w. weightOf s x y = Some w \<Longrightarrow> segment_weight cd (osmNodes s) ways x y w"
    and sub: "set ws \<subseteq> set ways"
  shows "osmNodes (fold (addWay cd) ws s) = osmNodes s \<and>
         (\<forall>x y w. weightOf (fold (addWay cd) ws s) x y = Some w
             \<longrightarrow> segment_weight cd (osmNodes s) ways x y w)"
proof (rule fold_invariant
    [where P = "\<lambda>t::PathFinder. osmNodes t = osmNodes s \<and>
                  (\<forall>x y w. weightOf t x y = Some w \<longrightarrow> segment_weight cd (osmNodes s) ways x y w)"])
  show "osmNodes s = osmNodes s \<and>
        (\<forall>x y w. weightOf s x y = Some w \<longrightarrow> segment_weight cd (osmNodes s) ways x y w)"
    using inv by blast
next
  fix way and t :: PathFinder
  assume way: "way \<in> set ws"
    and t: "osmNodes t = osmNodes s \<and>
        (\<forall>x y w. weightOf t x y = Some w \<longrightarrow> segment_weight cd (osmNodes s) ways x y w)"
  have i: "\<And>x y w. weightOf t x y = Some w \<Longrightarrow> segment_weight cd (osmNodes t) ways x y w"
    using t by simp
  have m: "way \<in> set ways" using way sub by blast
  show "osmNodes (addWay cd way t) = osmNodes s \<and>
        (\<forall>x y w. weightOf (addWay cd way t) x y = Some w
            \<longrightarrow> segment_weight cd (osmNodes s) ways x y w)"
    using addWay_sound [OF i m] t by simp
qed

lemma fold_addNode_no_edges:
  assumes "\<forall>e \<in> set (nodes s). neighbors (snd e) = []"
  shows "\<forall>e \<in> set (nodes (fold (\<lambda>osmNode. addNode (osm_key (osm_id osmNode)) (osm_point osmNode)) xs s)).
           neighbors (snd e) = []"
proof (rule fold_invariant [where P = "\<lambda>t::PathFinder. \<forall>e \<in> set (nodes t). neighbors (snd e) = []"])
  show "\<forall>e \<in> set (nodes s). neighbors (snd e) = []" by (rule assms)
next
  fix x and t :: PathFinder
  assume t: "\<forall>e \<in> set (nodes t). neighbors (snd e) = []"
  show "\<forall>e \<in> set (nodes (addNode (osm_key (osm_id x)) (osm_point x) t)). neighbors (snd e) = []"
  proof (cases "map_of (nodes t) (osm_key (osm_id x))")
    case None
    then have "nodes (addNode (osm_key (osm_id x)) (osm_point x) t) =
       obj_put (osm_key (osm_id x))
         \<lparr>ident = osm_key (osm_id x), point = osm_point x, neighbors = []\<rparr> (nodes t)"
      by (simp add: addNode_def)
    then show ?thesis
      using t set_obj_put [of "osm_key (osm_id x)"
          "\<lparr>ident = osm_key (osm_id x), point = osm_point x, neighbors = []\<rparr>" "nodes t"]
      by auto
  next
    case (Some n)
    then show ?thesis using t by (simp add: addNode_def)
  qed
qed

lemma weightOf_no_edges:
  assumes "\<forall>e \<in> set (nodes s). neighbors (snd e) = []"
  shows "weightOf s x y = None"
proof (cases "map_of (nodes s) x")
  case None
  then show ?thesis by (simp add: weightOf_def)
next
  case (Some n)
  then have "(x, n) \<in> set (nodes s)" by (rule map_of_SomeD)
  then have "neighbors n = []" using assms by force
  then show ?thesis using Some by (simp add: weightOf_def)
qed

lemma unpruned_frame:
  "osmNodes (unpruned cd elements s) = osmNodes (stored elements s) \<and>
   osmWays (unpruned cd elements s) = osmWays (stored elements s)"
proof -
  let ?s1 = "stored elements s"
  let ?f = "\<lambda>osmNode. addNode (osm_key (osm_id osmNode)) (osm_point osmNode)"
  let ?s2 = "fold ?f (obj_values (osmNodes ?s1)) ?s1"
  have i1: "graph_inv (nodes ?s1)" "nonneg_weights (nodes ?s1)"
    by (simp_all add: nodes_stored graph_inv_empty nonneg_weights_def)
  note a = fold_addNode_inv [OF i1, of "obj_values (osmNodes ?s1)"]
  have a1: "graph_inv (nodes ?s2)" and a3: "osmNodes ?s2 = osmNodes ?s1"
    and a4: "osmWays ?s2 = osmWays ?s1"
    using a by blast+
  have "same_frame (fold (addWay cd) (obj_values (osmWays ?s2)) ?s2) ?s2"
    using fold_addWay_inv [OF a1] by blast
  then show ?thesis unfolding unpruned_def Let_def using a3 a4 by (simp add: same_frame_def)
qed

lemma unpruned_sound:
  assumes "weightOf (unpruned cd elements s) x y = Some w"
  shows "segment_weight cd (osmNodes (stored elements s)) (obj_values (osmWays (stored elements s))) x y w"
proof -
  let ?s1 = "stored elements s"
  let ?f = "\<lambda>osmNode. addNode (osm_key (osm_id osmNode)) (osm_point osmNode)"
  let ?s2 = "fold ?f (obj_values (osmNodes ?s1)) ?s1"
  have i1: "graph_inv (nodes ?s1)" "nonneg_weights (nodes ?s1)"
    by (simp_all add: nodes_stored graph_inv_empty nonneg_weights_def)
  note a = fold_addNode_inv [OF i1, of "obj_values (osmNodes ?s1)"]
  have a3: "osmNodes ?s2 = osmNodes ?s1" and a4: "osmWays ?s2 = osmWays ?s1"
    using a by blast+
  have "\<forall>e \<in> set (nodes ?s1). neighbors (snd e) = []" by (simp add: nodes_stored)
  then have "\<forall>e \<in> set (nodes ?s2). neighbors (snd e) = []" by (rule fold_addNode_no_edges)
  then have n: "\<And>x y w. weightOf ?s2 x y = Some w \<Longrightarrow>
      segment_weight cd (osmNodes ?s2) (obj_values (osmWays ?s2)) x y w"
    using weightOf_no_edges by simp
  have "weightOf (fold (addWay cd) (obj_values (osmWays ?s2)) ?s2) x y = Some w"
    using assms by (simp add: unpruned_def Let_def)
  then have "segment_weight cd (osmNodes ?s2) (obj_values (osmWays ?s2)) x y w"
    using fold_addWay_sound [OF n subset_refl] by blast
  then show ?thesis by (simp add: a3 a4)
qed

lemma weightOf_pruned:
  "weightOf (processOSMData cd elements s) x y =
     (if map_of (nodes (processOSMData cd elements s)) x = None then None
      else weightOf (unpruned cd elements s) x y)"
proof (cases "nodes (unpruned cd elements s)")
  case Nil
  then have "nodes (processOSMData cd elements s) = []" by (simp add: nodes_pruned)
  then show ?thesis by (simp add: weightOf_def)
next
  case (Cons e rest)
  let ?V = "set (bfs (nodes (unpruned cd elements s)) [fst e] [fst e])"
  have n: "nodes (processOSMData cd elements s) =
      filter (\<lambda>x. fst x \<in> ?V) (nodes (unpruned cd elements s))"
    using Cons by (simp add: nodes_pruned)
  have m: "map_of (nodes (processOSMData cd elements s)) x =
      (if x \<in> ?V then map_of (nodes (unpruned cd elements s)) x else None)"
    unfolding n by (rule map_of_filter_key)
  show ?thesis
  proof (cases "x \<in> ?V")
    case True
    then show ?thesis using m by (simp add: weightOf_def)
  next
    case False
    then show ?thesis using m by (simp add: weightOf_def)
  qed
qed

lemma built_sound:
  assumes "weightOf (processOSMData cd elements s) x y = Some w"
  shows "segment_weight cd (osmNodes (processOSMData cd elements s))
           (obj_values (osmWays (processOSMData cd elements s))) x y w"
proof -
  have "weightOf (unpruned cd elements s) x y = Some w"
    using assms weightOf_pruned [of cd elements s x y] by (simp split: if_splits)
  then have "segment_weight cd (osmNodes (stored elements s))
      (obj_values (osmWays (stored elements s))) x y w"
    by (rule unpruned_sound)
  then show ?thesis using built_facts [of cd elements s] by simp
qed

lemma stored_ways_valid:
  "\<forall>e \<in> set (osmWays (stored elements s)). isValidRoadWay (way_nodes (snd e)) (way_tags (snd e))"
  unfolding stored_def
proof (rule fold_invariant [where P = "\<lambda>t::PathFinder.
     \<forall>e \<in> set (osmWays t). isValidRoadWay (way_nodes (snd e)) (way_tags (snd e))"])
  show "\<forall>e \<in> set (osmWays (s\<lparr>osmNodes := [], osmWays := [], nodes := []\<rparr>)).
      isValidRoadWay (way_nodes (snd e)) (way_tags (snd e))"
    by simp
next
  fix x and t :: PathFinder
  assume t: "\<forall>e \<in> set (osmWays t). isValidRoadWay (way_nodes (snd e)) (way_tags (snd e))"
  show "\<forall>e \<in> set (osmWays (processElement x t)).
      isValidRoadWay (way_nodes (snd e)) (way_tags (snd e))"
  proof (cases x)
    case (NodeElement i la lo)
    then show ?thesis using t by (simp add: processElement_def)
  next
    case (WayElement i ns ts)
    show ?thesis
    proof (cases "isValidRoadWay ns ts")
      case True
      then have "osmWays (processElement x t) =
          obj_put (show_nat i) \<lparr>way_id = i, way_nodes = ns, way_tags = ts\<rparr> (osmWays t)"
        using WayElement by (simp add: processElement_def)
      then show ?thesis
        using t True set_obj_put [of "show_nat i" "\<lparr>way_id = i, way_nodes = ns, way_tags = ts\<rparr>"
            "osmWays t"]
        by auto
    next
      case False
      then show ?thesis using t WayElement by (simp add: processElement_def)
    qed
  next
    case OtherElement
    then show ?thesis using t by (simp add: processElement_def)
  qed
qed

lemma stored_node_keys:
  "\<forall>e \<in> set (osmNodes (stored elements s)). fst e = show_nat (osm_id (snd e))"
  unfolding stored_def
proof (rule fold_invariant [where P = "\<lambda>t::PathFinder.
     \<forall>e \<in> set (osmNodes t). fst e = show_nat (osm_id (snd e))"])
  show "\<forall>e \<in> set (osmNodes (s\<lparr>osmNodes := [], osmWays := [], nodes := []\<rparr>)).
      fst e = show_nat (osm_id (snd e))"
    by simp
next
  fix x and t :: PathFinder
  assume t: "\<forall>e \<in> set (osmNodes t). fst e = show_nat (osm_id (snd e))"
  show "\<forall>e \<in> set (osmNodes (processElement x t)). fst e = show_nat (osm_id (snd e))"
  proof (cases x)
    case (NodeElement i la lo)
    then have "osmNodes (processElement x t) =
        obj_put (show_nat i) \<lparr>osm_id = i, lat = la, lon = lo\<rparr> (osmNodes t)"
      by (simp add: processElement_def)
    then show ?thesis
      using t set_obj_put [of "show_nat i" "\<lparr>osm_id = i, lat = la, lon = lo\<rparr>" "osmNodes t"]
      by auto
  next
    case (WayElement i ns ts)
    then show ?thesis using t by (simp add: processElement_def)
  next
    case OtherElement
    then show ?thesis using t by (simp add: processElement_def)
  qed
qed

lemma valid_way_highway:
  assumes "isValidRoadWay ns ts"
  shows "\<exists>roadType. tag ts ''highway'' = Some roadType \<and> roadType \<in> set validRoadTypes"
  using assms by (auto simp: isValidRoadWay_def split: option.splits if_splits)

lemma nodes_dom_addNode:
  "(map_of (nodes (addNode i p s)) k = None) = (k \<noteq> i \<and> map_of (nodes s) k = None)"
proof (cases "map_of (nodes s) i")
  case None
  then show ?thesis by (auto simp: addNode_def map_of_obj_put)
next
  case (Some n)
  then show ?thesis by (auto simp: addNode_def)
qed

lemma fold_addNode_present:
  "(map_of (nodes (fold (\<lambda>osmNode. addNode (osm_key (osm_id osmNode)) (osm_point osmNode)) xs s)) k = None)
     = (k \<notin> (\<lambda>n. osm_key (osm_id n)) ` set xs \<and> map_of (nodes s) k = None)"
proof (induction xs arbitrary: s)
  case Nil
  then show ?case by simp
next
  case (Cons x xs)
  show ?case
    unfolding fold_Cons comp_apply Cons.IH nodes_dom_addNode by auto
qed

lemma nodes_dom_addSegment:
  "(map_of (nodes (addSegment cd speed ow seg s)) k = None) = (map_of (nodes s) k = None)"
proof -
  from addSegment_cases [of cd speed ow seg s]
  consider "addSegment cd speed ow seg s = s"
    | w where "addSegment cd speed ow seg s = addEdge (osm_key (fst seg)) (osm_key (snd seg)) w s"
    | w where "addSegment cd speed ow seg s =
          addEdge (osm_key (snd seg)) (osm_key (fst seg)) w
            (addEdge (osm_key (fst seg)) (osm_key (snd seg)) w s)"
    by blast
  then show ?thesis
  proof cases
    case 1
    then show ?thesis by simp
  next
    case 2
    then show ?thesis by (simp add: nodes_dom_addEdge)
  next
    case 3
    then show ?thesis by (simp add: nodes_dom_addEdge)
  qed
qed

lemma edge_kept_addSegment:
  assumes "weightOf s x y \<noteq> None"
  shows "weightOf (addSegment cd speed ow seg s) x y \<noteq> None"
proof -
  obtain a b where ab: "seg = (a, b)" by (cases seg)
  show ?thesis
  proof (cases "map_of (osmNodes s) (show_nat a) = None \<or> map_of (osmNodes s) (show_nat b) = None
     \<or> map_of (nodes s) (osm_key a) = None \<or> map_of (nodes s) (osm_key b) = None")
    case True
    then have "addSegment cd speed ow (a, b) s = s" by (rule addSegment_absent)
    then show ?thesis using assms ab by simp
  next
    case False
    then obtain na nb ga gb where p: "map_of (osmNodes s) (show_nat a) = Some na"
      "map_of (osmNodes s) (show_nat b) = Some nb"
      "map_of (nodes s) (osm_key a) = Some ga" "map_of (nodes s) (osm_key b) = Some gb"
      by auto
    show ?thesis
    proof (cases ow)
      case True
      have "weightOf (addSegment cd speed True (a, b) s) x y \<noteq> None"
        unfolding weightOf_addSegment_oneway [OF p] using assms by (simp split: if_splits)
      then show ?thesis using ab True by simp
    next
      case False
      have "weightOf (addSegment cd speed False (a, b) s) x y \<noteq> None"
        unfolding weightOf_addSegment_twoway [OF p] using assms by (simp split: if_splits)
      then show ?thesis using ab False by simp
    qed
  qed
qed

lemma edge_made_addSegment:
  assumes "map_of (osmNodes s) (show_nat a) \<noteq> None" "map_of (osmNodes s) (show_nat b) \<noteq> None"
    and "map_of (nodes s) (osm_key a) \<noteq> None" "map_of (nodes s) (osm_key b) \<noteq> None"
  shows "weightOf (addSegment cd speed ow (a, b) s) (osm_key a) (osm_key b) \<noteq> None"
proof -
  obtain na nb ga gb where p: "map_of (osmNodes s) (show_nat a) = Some na"
      "map_of (osmNodes s) (show_nat b) = Some nb"
      "map_of (nodes s) (osm_key a) = Some ga" "map_of (nodes s) (osm_key b) = Some gb"
    using assms by auto
  show ?thesis
  proof (cases ow)
    case True
    have "weightOf (addSegment cd speed True (a, b) s) (osm_key a) (osm_key b) \<noteq> None"
      unfolding weightOf_addSegment_oneway [OF p] by simp
    then show ?thesis using True by simp
  next
    case False
    have "weightOf (addSegment cd speed False (a, b) s) (osm_key a) (osm_key b) \<noteq> None"
      unfolding weightOf_addSegment_twoway [OF p] by simp
    then show ?thesis using False by simp
  qed
qed

lemma fold_addSegment_kept:
  assumes "weightOf s x y \<noteq> None"
  shows "weightOf (fold (addSegment cd speed ow) segs s) x y \<noteq> None"
  by (rule fold_invariant [where P = "\<lambda>t::PathFinder. weightOf t x y \<noteq> None", OF assms])
     (rule edge_kept_addSegment)

lemma fold_addSegment_dom:
  "(map_of (nodes (fold (addSegment cd speed ow) segs s)) k = None) = (map_of (nodes s) k = None)"
  by (induction segs arbitrary: s) (simp_all add: nodes_dom_addSegment)

lemma fold_addSegment_osmNodes: "osmNodes (fold (addSegment cd speed ow) segs s) = osmNodes s"
  by (induction segs arbitrary: s) (simp_all add: osmNodes_addSegment)

lemma fold_addSegment_made:
  assumes "(a, b) \<in> set segs"
    and "map_of (osmNodes s) (show_nat a) \<noteq> None" "map_of (osmNodes s) (show_nat b) \<noteq> None"
    and "map_of (nodes s) (osm_key a) \<noteq> None" "map_of (nodes s) (osm_key b) \<noteq> None"
  shows "weightOf (fold (addSegment cd speed ow) segs s) (osm_key a) (osm_key b) \<noteq> None"
  using assms
proof (induction segs arbitrary: s)
  case Nil
  then show ?case by simp
next
  case (Cons seg segs)
  show ?case
  proof (cases "seg = (a, b)")
    case True
    have "weightOf (addSegment cd speed ow (a, b) s) (osm_key a) (osm_key b) \<noteq> None"
      using Cons.prems(2-5) by (rule edge_made_addSegment)
    then show ?thesis unfolding fold_Cons comp_apply True by (rule fold_addSegment_kept)
  next
    case False
    then have m: "(a, b) \<in> set segs" using Cons.prems(1) by simp
    show ?thesis
      unfolding fold_Cons comp_apply
      using Cons.prems(2-5)
      by (intro Cons.IH [OF m]) (simp_all add: osmNodes_addSegment nodes_dom_addSegment)
  qed
qed

lemma addWay_kept:
  assumes "weightOf s x y \<noteq> None"
  shows "weightOf (addWay cd way s) x y \<noteq> None"
proof (cases "tag (way_tags way) ''highway''")
  case None
  then show ?thesis using assms by (simp add: addWay_def)
next
  case (Some roadType)
  then show ?thesis using fold_addSegment_kept [OF assms] by (simp add: addWay_def)
qed

lemma addWay_dom: "(map_of (nodes (addWay cd way s)) k = None) = (map_of (nodes s) k = None)"
  by (cases "tag (way_tags way) ''highway''") (simp_all add: addWay_def fold_addSegment_dom)

lemma addWay_osmNodes: "osmNodes (addWay cd way s) = osmNodes s"
  by (cases "tag (way_tags way) ''highway''") (simp_all add: addWay_def fold_addSegment_osmNodes)

lemma fold_addWay_kept:
  assumes "weightOf s x y \<noteq> None"
  shows "weightOf (fold (addWay cd) ways s) x y \<noteq> None"
  by (rule fold_invariant [where P = "\<lambda>t::PathFinder. weightOf t x y \<noteq> None", OF assms])
     (rule addWay_kept)

lemma fold_addWay_made:
  assumes "way \<in> set ways" "tag (way_tags way) ''highway'' \<noteq> None"
    and "(a, b) \<in> set (zip (way_nodes way) (tl (way_nodes way)))"
    and "map_of (osmNodes s) (show_nat a) \<noteq> None" "map_of (osmNodes s) (show_nat b) \<noteq> None"
    and "map_of (nodes s) (osm_key a) \<noteq> None" "map_of (nodes s) (osm_key b) \<noteq> None"
  shows "weightOf (fold (addWay cd) ways s) (osm_key a) (osm_key b) \<noteq> None"
  using assms
proof (induction ways arbitrary: s)
  case Nil
  then show ?case by simp
next
  case (Cons w ways)
  show ?case
  proof (cases "w = way")
    case True
    obtain roadType where r: "tag (way_tags way) ''highway'' = Some roadType"
      using Cons.prems(2) by auto
    have "weightOf (addWay cd way s) (osm_key a) (osm_key b) \<noteq> None"
      using fold_addSegment_made [OF Cons.prems(3-7)] r by (simp add: addWay_def)
    then show ?thesis unfolding fold_Cons comp_apply True by (rule fold_addWay_kept)
  next
    case False
    then have m: "way \<in> set ways" using Cons.prems(1) by simp
    show ?thesis
      unfolding fold_Cons comp_apply
      using Cons.prems(4-7)
      by (intro Cons.IH [OF m Cons.prems(2,3)]) (simp_all add: addWay_osmNodes addWay_dom)
  qed
qed

lemma unpruned_made:
  assumes way: "way \<in> set (obj_values (osmWays (stored elements s)))"
    and seg: "(a, b) \<in> set (zip (way_nodes way) (tl (way_nodes way)))"
    and na: "map_of (osmNodes (stored elements s)) (show_nat a) \<noteq> None"
    and nb: "map_of (osmNodes (stored elements s)) (show_nat b) \<noteq> None"
  shows "weightOf (unpruned cd elements s) (osm_key a) (osm_key b) \<noteq> None"
proof -
  let ?s1 = "stored elements s"
  let ?f = "\<lambda>osmNode. addNode (osm_key (osm_id osmNode)) (osm_point osmNode)"
  let ?s2 = "fold ?f (obj_values (osmNodes ?s1)) ?s1"
  have i1: "graph_inv (nodes ?s1)" "nonneg_weights (nodes ?s1)"
    by (simp_all add: nodes_stored graph_inv_empty nonneg_weights_def)
  note f = fold_addNode_inv [OF i1, of "obj_values (osmNodes ?s1)"]
  have a3: "osmNodes ?s2 = osmNodes ?s1" and a4: "osmWays ?s2 = osmWays ?s1"
    using f by blast+
  have key: "map_of (nodes ?s2) (osm_key c) \<noteq> None"
    if c: "map_of (osmNodes ?s1) (show_nat c) \<noteq> None" for c
  proof -
    obtain n where n: "map_of (osmNodes ?s1) (show_nat c) = Some n" using c by auto
    then have m: "(show_nat c, n) \<in> set (osmNodes ?s1)" by (rule map_of_SomeD)
    then have "show_nat c = show_nat (osm_id n)" using stored_node_keys [of elements s] by force
    then have k: "osm_key c = osm_key (osm_id n)" by (simp add: osm_key_def)
    have "n \<in> set (obj_values (osmNodes ?s1))" using m by (force simp: obj_values_def)
    then have "osm_key c \<in> (\<lambda>n. osm_key (osm_id n)) ` set (obj_values (osmNodes ?s1))"
      using k by blast
    then show ?thesis by (simp add: fold_addNode_present)
  qed
  have v: "isValidRoadWay (way_nodes way) (way_tags way)"
    using way stored_ways_valid [of elements s] by (force simp: obj_values_def)
  have h: "tag (way_tags way) ''highway'' \<noteq> None" using valid_way_highway [OF v] by auto
  have w2: "way \<in> set (obj_values (osmWays ?s2))" using way a4 by simp
  have "weightOf (fold (addWay cd) (obj_values (osmWays ?s2)) ?s2) (osm_key a) (osm_key b) \<noteq> None"
    using na nb key by (intro fold_addWay_made [OF w2 h seg]) (simp_all add: a3)
  then show ?thesis by (simp add: unpruned_def Let_def)
qed

lemma built_made:
  assumes way: "way \<in> set (obj_values (osmWays (processOSMData cd elements s)))"
    and seg: "(a, b) \<in> set (zip (way_nodes way) (tl (way_nodes way)))"
    and na: "map_of (osmNodes (processOSMData cd elements s)) (show_nat a) \<noteq> None"
    and nb: "map_of (osmNodes (processOSMData cd elements s)) (show_nat b) \<noteq> None"
    and ga: "map_of (nodes (processOSMData cd elements s)) (osm_key a) \<noteq> None"
  shows "weightOf (processOSMData cd elements s) (osm_key a) (osm_key b) \<noteq> None"
proof -
  note bf = built_facts [of cd elements s]
  have "weightOf (unpruned cd elements s) (osm_key a) (osm_key b) \<noteq> None"
    using way seg na nb bf by (intro unpruned_made) simp_all
  then show ?thesis using ga by (simp add: weightOf_pruned)
qed

lemma stored_speed_pos:
  assumes "way \<in> set (obj_values (osmWays (processOSMData cd elements s)))"
  shows "isValidRoadWay (way_nodes way) (way_tags way) \<and> 0 < getSpeedLimit (way_tags way)"
proof -
  have "way \<in> set (obj_values (osmWays (stored elements s)))"
    using assms built_facts [of cd elements s] by simp
  then have "isValidRoadWay (way_nodes way) (way_tags way)"
    using stored_ways_valid [of elements s] by (force simp: obj_values_def)
  then show ?thesis using getSpeedLimit_pos by blast
qed

section \<open>Properties of the fare functions\<close>

text \<open>
  C2, as stated, at the location screen: for a trip of length zero the claim promises the
  base fare 50, the code returns the minimum fare 70; at one kilometre the formula gives 65
  and the code again 70.
\<close>

theorem fare_exact_formula_counterexample:
  "calculateEstimatedFare_location 0 = 70 \<and> fare_formula 50 0 15 (0 / 1000) = 50
   \<and> calculateEstimatedFare_location 1000 = 70 \<and> fare_formula 50 0 15 (1000 / 1000) = 65"
  by (simp add: calculateEstimatedFare_location_def fare_formula_def)

text \<open>
  C2, amended: every fare function returns the larger of the piecewise formula and its
  minimum fare, so the result is never below the minimum. The formula itself is returned
  exactly by \<open>calculateFare\<close> (base 15, base distance 1 km, rate 11, never below 15) and by
  the home screen (base 15, base distance 0, rate 5, minimum 15).
\<close>

theorem fare_clamped_formula:
  "calculateFare d = fare_formula 15 1 11 d \<and> 15 \<le> calculateFare d
   \<and> calculateEstimatedFare_home m = max (fare_formula 15 0 5 (m / 1000)) 15
   \<and> (0 \<le> m \<longrightarrow> calculateEstimatedFare_home m = fare_formula 15 0 5 (m / 1000))
   \<and> 15 \<le> calculateEstimatedFare_home m
   \<and> calculateEstimatedFare_location m = max (fare_formula 50 0 15 (m / 1000)) 70
   \<and> 70 \<le> calculateEstimatedFare_location m"
proof -
  have a: "calculateFare d = fare_formula 15 1 11 d"
    by (simp add: calculateFare_def fare_formula_def BASE_FARE_def BASE_KM_def RATE_PER_KM_def)
  have b: "15 \<le> calculateFare d"
    by (simp add: calculateFare_def BASE_FARE_def BASE_KM_def RATE_PER_KM_def)
  have c: "calculateEstimatedFare_home m = max (fare_formula 15 0 5 (m / 1000)) 15"
    by (simp add: calculateEstimatedFare_home_def fare_formula_def max_def)
  have d: "0 \<le> m \<longrightarrow> calculateEstimatedFare_home m = fare_formula 15 0 5 (m / 1000)"
    by (simp add: calculateEstimatedFare_home_def fare_formula_def max_def)
  have e: "15 \<le> calculateEstimatedFare_home m"
    by (simp add: calculateEstimatedFare_home_def)
  have f: "calculateEstimatedFare_location m = max (fare_formula 50 0 15 (m / 1000)) 70"
    by (simp add: calculateEstimatedFare_location_def fare_formula_def max_def)
  have g: "70 \<le> calculateEstimatedFare_location m"
    by (simp add: calculateEstimatedFare_location_def)
  from a b c d e f g show ?thesis by blast
qed

theorem fare_clamped_formula_witness:
  "calculateFare 3 = fare_formula 15 1 11 3 \<and> calculateFare 3 = 37
   \<and> calculateEstimatedFare_home 2000 = fare_formula 15 0 5 (2000 / 1000)
   \<and> calculateEstimatedFare_home 2000 = 25
   \<and> calculateEstimatedFare_location 2000 = max (fare_formula 50 0 15 (2000 / 1000)) 70
   \<and> calculateEstimatedFare_location 2000 = 80"
proof -
  have h: "(0::real) \<le> 2000" by simp
  have v: "fare_formula 15 1 11 3 = 37 \<and> fare_formula 15 0 5 (2000 / 1000) = 25
           \<and> max (fare_formula 50 0 15 (2000 / 1000)) 70 = 80"
    by (simp add: fare_formula_def)
  from fare_clamped_formula [of 3 2000] h v show ?thesis by simp
qed

text \<open>
  C9: each fare function is monotone in the distance.
\<close>

theorem fare_monotone:
  assumes "d1 \<le> d2"
  shows "calculateFare d1 \<le> calculateFare d2
         \<and> calculateEstimatedFare_home d1 \<le> calculateEstimatedFare_home d2
         \<and> calculateEstimatedFare_location d1 \<le> calculateEstimatedFare_location d2"
proof -
  have a: "calculateFare d1 \<le> calculateFare d2"
    using assms
    by (simp add: calculateFare_def BASE_FARE_def BASE_KM_def RATE_PER_KM_def)
  have b: "calculateEstimatedFare_home d1 \<le> calculateEstimatedFare_home d2"
    using assms by (simp add: calculateEstimatedFare_home_def max_def)
  have c: "calculateEstimatedFare_location d1 \<le> calculateEstimatedFare_location d2"
    using assms by (simp add: calculateEstimatedFare_location_def max_def)
  from a b c show ?thesis by blast
qed

theorem fare_monotone_witness:
  "(1 / 2 :: real) \<le> 3 \<and> calculateFare (1 / 2) \<le> calculateFare 3
   \<and> calculateFare (1 / 2) = 15 \<and> calculateFare 3 = 37
   \<and> calculateEstimatedFare_home (1 / 2) \<le> calculateEstimatedFare_home 3
   \<and> calculateEstimatedFare_location (1 / 2) \<le> calculateEstimatedFare_location 3"
proof -
  have h: "(1 / 2 :: real) \<le> 3" by simp
  have v: "calculateFare (1 / 2) = 15 \<and> calculateFare 3 = 37"
    by (simp add: calculateFare_def BASE_FARE_def BASE_KM_def RATE_PER_KM_def)
  from fare_monotone [OF h] h v show ?thesis by simp
qed

section \<open>Properties of addNode\<close>

text \<open>
  C8, as stated, at the earlier router: node \<open>a\<close> has a neighbour; adding \<open>a\<close> again moves it to
  the new point and empties its neighbour map.
\<close>

theorem addNode_pathfinding_counterexample:
  "map_of (nodes joined_pair) ''a'' =
     Some \<lparr>ident = ''a'', point = \<lparr>latitude = 0, longitude = 0\<rparr>, neighbors = [(''b'', Fin 1)]\<rparr>
   \<and> map_of (nodes (addNode_pathfinding ''a'' \<lparr>latitude = 5, longitude = 5\<rparr> joined_pair)) ''a'' =
     Some \<lparr>ident = ''a'', point = \<lparr>latitude = 5, longitude = 5\<rparr>, neighbors = []\<rparr>"
  by (simp add: joined_pair_def addEdge_pathfinding_def addNode_pathfinding_def newPathFinder_def
        flat_distance_def eval_obj)

text \<open>
  C8, amended: \<open>addNode\<close> of the weighted router leaves the whole router unchanged when the id
  is already a node of the graph; \<open>addNode\<close> of the earlier router stores a fresh node with
  the given point and an empty neighbour map under the id, whatever was there.
\<close>

theorem addNode_idempotent:
  "(map_of (nodes s) i \<noteq> None \<longrightarrow> addNode i p s = s)
   \<and> map_of (nodes (addNode_pathfinding i p s)) i = Some \<lparr>ident = i, point = p, neighbors = []\<rparr>"
  using addNode_existing [of s i p] addNode_pathfinding_overwrites [of i p s] by blast

theorem addNode_idempotent_witness:
  "map_of (nodes joined_pair) ''a'' \<noteq> None
   \<and> addNode ''a'' \<lparr>latitude = 5, longitude = 5\<rparr> joined_pair = joined_pair
   \<and> map_of (nodes (addNode_pathfinding ''a'' \<lparr>latitude = 5, longitude = 5\<rparr> joined_pair)) ''a'' =
       Some \<lparr>ident = ''a'', point = \<lparr>latitude = 5, longitude = 5\<rparr>, neighbors = []\<rparr>"
proof -
  have h: "map_of (nodes joined_pair) ''a'' \<noteq> None"
    by (simp add: joined_pair_def addEdge_pathfinding_def addNode_pathfinding_def newPathFinder_def
          flat_distance_def eval_obj)
  show ?thesis
    using h addNode_idempotent [of joined_pair "''a''" "\<lparr>latitude = 5, longitude = 5\<rparr>"] by blast
qed

section \<open>Properties of the helper-based shortest path\<close>

text \<open>
  C1 at the helper-based router: on two streets that do not meet, 1 - 2 and 3 - 4, a search
  from node 1 to node 3 returns a result instead of \<open>null\<close>. Its path is the end node alone
  and its distance is \<open>Infinity\<close>.
\<close>

theorem helper_unreachable_result:
  "h_nodes (processOverpassData two_roads newHelperFinder) =
     [(''1'', \<lparr>r_ident = ''1'', r_point = \<lparr>latitude = 0, longitude = 0\<rparr>, r_neighbors = [''2'']\<rparr>),
      (''2'', \<lparr>r_ident = ''2'', r_point = \<lparr>latitude = 0, longitude = 1\<rparr>, r_neighbors = [''1'']\<rparr>),
      (''3'', \<lparr>r_ident = ''3'', r_point = \<lparr>latitude = 5, longitude = 0\<rparr>, r_neighbors = [''4'']\<rparr>),
      (''4'', \<lparr>r_ident = ''4'', r_point = \<lparr>latitude = 5, longitude = 1\<rparr>, r_neighbors = [''3'']\<rparr>)]
   \<and> findShortestPath_helper flat_distance (processOverpassData two_roads newHelperFinder)
         ''1'' ''3'' =
       Some (Inr (Some \<lparr>hp_path = [''3''], hp_distance = Some Infinity,
                        hp_coordinates = [\<lparr>latitude = 5, longitude = 0\<rparr>]\<rparr>))"
  by (simp add: two_roads_def newHelperFinder_def eval_obj eval_helper)

section \<open>Properties of the edge weights\<close>

lemma oneway_road_graph_nodes:
  "nodes oneway_road_graph =
     [(''osm_1'', \<lparr>ident = ''osm_1'', point = \<lparr>latitude = 0, longitude = 0\<rparr>,
                  neighbors = [(''osm_2'', Fin (6371 * pi / 3))]\<rparr>),
      (''osm_2'', \<lparr>ident = ''osm_2'', point = \<lparr>latitude = 0, longitude = 1\<rparr>,
                  neighbors = []\<rparr>)]"
proof -
  have "nodes oneway_road_graph =
     [(''osm_1'', \<lparr>ident = ''osm_1'', point = \<lparr>latitude = 0, longitude = 0\<rparr>,
                  neighbors = [(''osm_2'',
                     Fin (calculateDistance_haversine \<lparr>latitude = 0, longitude = 0\<rparr>
                            \<lparr>latitude = 0, longitude = 1\<rparr> * 3 / 50))]\<rparr>),
      (''osm_2'', \<lparr>ident = ''osm_2'', point = \<lparr>latitude = 0, longitude = 1\<rparr>,
                  neighbors = []\<rparr>)]"
    by (simp add: oneway_road_graph_def oneway_data_def eval_obj eval_build)
  then show ?thesis by (simp add: haversine_equator_degree)
qed

lemma oneway_road_graph_osm:
  "osmNodes oneway_road_graph =
     [(''1'', \<lparr>osm_id = 1, lat = 0, lon = 0\<rparr>), (''2'', \<lparr>osm_id = 2, lat = 0, lon = 1\<rparr>)]
   \<and> osmWays oneway_road_graph =
     [(''10'', \<lparr>way_id = 10, way_nodes = [1, 2],
                way_tags = [(''highway'', ''primary''), (''oneway'', ''yes'')]\<rparr>)]"
  by (simp add: oneway_road_graph_def oneway_data_def eval_obj eval_build)

text \<open>
  C4. In the loop of \<open>buildGraphFromOSM\<close>, a segment between two known nodes is given the
  weight \<open>edgeWeight\<close> of its length and the speed limit, on the forward edge and, unless the
  way is one-way, on the backward edge; when the effective speed \<open>speedLimit * 1000 / 3600\<close>
  is zero or negative that weight is \<open>Infinity\<close>. The division of the weight computation
  never has a zero divisor: the checked computation never faults and agrees with the plain
  one. Distances are not negative: the argument of both square roots of \<open>calculateDistance\<close>
  lies between 0 and 1 and its result is at least 0, so the weight of a segment is never
  negative, whatever the speed. A way that passes \<open>isValidRoadWay\<close> has a positive speed
  limit, and every way kept by \<open>processOSMData\<close> passes it. In a built graph every weight is
  the weight computed for a segment of a kept way, it is a finite number that is not
  negative, and every segment of a kept way whose ends are map nodes and whose first node is
  still in the graph has an edge.
\<close>

theorem edge_weight_safe:
  "(map_of (osmNodes s) (show_nat a) = Some na \<and> map_of (osmNodes s) (show_nat b) = Some nb
      \<and> map_of (nodes s) (osm_key a) \<noteq> None \<and> map_of (nodes s) (osm_key b) \<noteq> None \<longrightarrow>
      weightOf (addSegment calculateDistance_haversine speedLimit isOneWay (a, b) s)
          (osm_key a) (osm_key b) =
        Some (edgeWeight (calculateDistance_haversine (osm_point na) (osm_point nb)) speedLimit)
      \<and> (\<not> isOneWay \<longrightarrow>
           weightOf (addSegment calculateDistance_haversine speedLimit isOneWay (a, b) s)
               (osm_key b) (osm_key a) =
             Some (edgeWeight (calculateDistance_haversine (osm_point na) (osm_point nb)) speedLimit))
      \<and> (speedLimit * 1000 / 3600 \<le> 0 \<longrightarrow>
           weightOf (addSegment calculateDistance_haversine speedLimit isOneWay (a, b) s)
               (osm_key a) (osm_key b) = Some Infinity
           \<and> (\<not> isOneWay \<longrightarrow>
                weightOf (addSegment calculateDistance_haversine speedLimit isOneWay (a, b) s)
                    (osm_key b) (osm_key a) = Some Infinity)))
   \<and> (speedLimit * 1000 / 3600 \<le> 0 \<longrightarrow> edgeWeight distance speedLimit = Infinity)
   \<and> edgeWeight_checked distance speedLimit = Inr (edgeWeight distance speedLimit)
   \<and> 0 \<le> haversine_a p q \<and> haversine_a p q \<le> 1
   \<and> 0 \<le> calculateDistance_haversine p q
   \<and> num_le (Fin 0) (edgeWeight (calculateDistance_haversine p q) speedLimit)
   \<and> (isValidRoadWay ns ts \<longrightarrow> 0 < getSpeedLimit ts)
   \<and> (\<forall>way \<in> set (obj_values (osmWays (processOSMData calculateDistance_haversine elements s0))).
         isValidRoadWay (way_nodes way) (way_tags way) \<and> 0 < getSpeedLimit (way_tags way))
   \<and> (weightOf (processOSMData calculateDistance_haversine elements s0) x y = Some w \<longrightarrow>
         segment_weight calculateDistance_haversine
           (osmNodes (processOSMData calculateDistance_haversine elements s0))
           (obj_values (osmWays (processOSMData calculateDistance_haversine elements s0))) x y w
         \<and> (\<exists>t. w = Fin t \<and> 0 \<le> t))
   \<and> (way \<in> set (obj_values (osmWays (processOSMData calculateDistance_haversine elements s0)))
        \<and> (a', b') \<in> set (zip (way_nodes way) (tl (way_nodes way)))
        \<and> map_of (osmNodes (processOSMData calculateDistance_haversine elements s0)) (show_nat a') \<noteq> None
        \<and> map_of (osmNodes (processOSMData calculateDistance_haversine elements s0)) (show_nat b') \<noteq> None
        \<and> map_of (nodes (processOSMData calculateDistance_haversine elements s0)) (osm_key a') \<noteq> None
        \<longrightarrow> weightOf (processOSMData calculateDistance_haversine elements s0)
              (osm_key a') (osm_key b') \<noteq> None)
   \<and> nonneg_weights (nodes (processOSMData calculateDistance_haversine elements s0))"
proof -
  let ?cd = calculateDistance_haversine
  let ?B = "processOSMData ?cd elements s0"
  have nn: "\<forall>p q. 0 \<le> ?cd p q" by (simp add: calculateDistance_haversine_nonneg)
  have inf: "sp * 1000 / 3600 \<le> 0 \<longrightarrow> edgeWeight d sp = Infinity" for d sp :: real
    by (simp add: edgeWeight_def Let_def)
  have c1: "map_of (osmNodes s) (show_nat a) = Some na \<and> map_of (osmNodes s) (show_nat b) = Some nb
      \<and> map_of (nodes s) (osm_key a) \<noteq> None \<and> map_of (nodes s) (osm_key b) \<noteq> None \<longrightarrow>
      weightOf (addSegment ?cd speedLimit isOneWay (a, b) s) (osm_key a) (osm_key b) =
        Some (edgeWeight (?cd (osm_point na) (osm_point nb)) speedLimit)
      \<and> (\<not> isOneWay \<longrightarrow>
           weightOf (addSegment ?cd speedLimit isOneWay (a, b) s) (osm_key b) (osm_key a) =
             Some (edgeWeight (?cd (osm_point na) (osm_point nb)) speedLimit))
      \<and> (speedLimit * 1000 / 3600 \<le> 0 \<longrightarrow>
           weightOf (addSegment ?cd speedLimit isOneWay (a, b) s) (osm_key a) (osm_key b)
             = Some Infinity
           \<and> (\<not> isOneWay \<longrightarrow>
                weightOf (addSegment ?cd speedLimit isOneWay (a, b) s) (osm_key b) (osm_key a)
                  = Some Infinity))"
  proof (intro impI, elim conjE)
    assume p: "map_of (osmNodes s) (show_nat a) = Some na" "map_of (osmNodes s) (show_nat b) = Some nb"
      and g: "map_of (nodes s) (osm_key a) \<noteq> None" "map_of (nodes s) (osm_key b) \<noteq> None"
    obtain ga gb where q: "map_of (nodes s) (osm_key a) = Some ga" "map_of (nodes s) (osm_key b) = Some gb"
      using g by auto
    let ?ew = "edgeWeight (?cd (osm_point na) (osm_point nb)) speedLimit"
    have f: "weightOf (addSegment ?cd speedLimit isOneWay (a, b) s) (osm_key a) (osm_key b) = Some ?ew"
    proof (cases isOneWay)
      case True
      have "weightOf (addSegment ?cd speedLimit True (a, b) s) (osm_key a) (osm_key b) = Some ?ew"
        unfolding weightOf_addSegment_oneway [OF p q] by simp
      then show ?thesis using True by simp
    next
      case False
      have "weightOf (addSegment ?cd speedLimit False (a, b) s) (osm_key a) (osm_key b) = Some ?ew"
        unfolding weightOf_addSegment_twoway [OF p q] by simp
      then show ?thesis using False by simp
    qed
    have r: "\<not> isOneWay \<longrightarrow>
        weightOf (addSegment ?cd speedLimit isOneWay (a, b) s) (osm_key b) (osm_key a) = Some ?ew"
    proof
      assume n: "\<not> isOneWay"
      have "weightOf (addSegment ?cd speedLimit False (a, b) s) (osm_key b) (osm_key a) = Some ?ew"
        unfolding weightOf_addSegment_twoway [OF p q] by simp
      then show "weightOf (addSegment ?cd speedLimit isOneWay (a, b) s) (osm_key b) (osm_key a) = Some ?ew"
        using n by simp
    qed
    show "weightOf (addSegment ?cd speedLimit isOneWay (a, b) s) (osm_key a) (osm_key b) = Some ?ew
      \<and> (\<not> isOneWay \<longrightarrow>
           weightOf (addSegment ?cd speedLimit isOneWay (a, b) s) (osm_key b) (osm_key a) = Some ?ew)
      \<and> (speedLimit * 1000 / 3600 \<le> 0 \<longrightarrow>
           weightOf (addSegment ?cd speedLimit isOneWay (a, b) s) (osm_key a) (osm_key b)
             = Some Infinity
           \<and> (\<not> isOneWay \<longrightarrow>
                weightOf (addSegment ?cd speedLimit isOneWay (a, b) s) (osm_key b) (osm_key a)
                  = Some Infinity))"
      using f r inf [of speedLimit "?cd (osm_point na) (osm_point nb)"] by simp
  qed
  have c2: "speedLimit * 1000 / 3600 \<le> 0 \<longrightarrow> edgeWeight distance speedLimit = Infinity"
    by (rule inf)
  have c3: "edgeWeight_checked distance speedLimit = Inr (edgeWeight distance speedLimit)"
    by (rule edgeWeight_checked_eq)
  have c4: "0 \<le> haversine_a p q" and c5: "haversine_a p q \<le> 1"
    using haversine_a_range [of p q] by simp_all
  have c6: "0 \<le> ?cd p q" by (rule calculateDistance_haversine_nonneg)
  have c7: "num_le (Fin 0) (edgeWeight (?cd p q) speedLimit)"
    using c6 by (rule edgeWeight_nonneg)
  have c8: "isValidRoadWay ns ts \<longrightarrow> 0 < getSpeedLimit ts"
    using getSpeedLimit_pos by simp
  have c9: "\<forall>way \<in> set (obj_values (osmWays ?B)).
         isValidRoadWay (way_nodes way) (way_tags way) \<and> 0 < getSpeedLimit (way_tags way)"
    using stored_speed_pos by blast
  have c10: "weightOf ?B x y = Some w \<longrightarrow>
         segment_weight ?cd (osmNodes ?B) (obj_values (osmWays ?B)) x y w
         \<and> (\<exists>t. w = Fin t \<and> 0 \<le> t)"
  proof
    assume w: "weightOf ?B x y = Some w"
    then have sw: "segment_weight ?cd (osmNodes ?B) (obj_values (osmWays ?B)) x y w"
      by (rule built_sound)
    then obtain way' d where m: "way' \<in> set (obj_values (osmWays ?B))"
      and d: "0 \<le> d" and e: "w = edgeWeight d (getSpeedLimit (way_tags way'))"
      using nn by (elim segment_weightE) blast
    have "0 < getSpeedLimit (way_tags way')" using c9 m by blast
    then have "w = Fin (d / (getSpeedLimit (way_tags way') * 1000 / 3600))"
      and "0 \<le> d / (getSpeedLimit (way_tags way') * 1000 / 3600)"
      using e d by (simp_all add: edgeWeight_pos_speed)
    then show "segment_weight ?cd (osmNodes ?B) (obj_values (osmWays ?B)) x y w
         \<and> (\<exists>t. w = Fin t \<and> 0 \<le> t)"
      using sw by blast
  qed
  have c11: "way \<in> set (obj_values (osmWays ?B))
        \<and> (a', b') \<in> set (zip (way_nodes way) (tl (way_nodes way)))
        \<and> map_of (osmNodes ?B) (show_nat a') \<noteq> None
        \<and> map_of (osmNodes ?B) (show_nat b') \<noteq> None
        \<and> map_of (nodes ?B) (osm_key a') \<noteq> None
        \<longrightarrow> weightOf ?B (osm_key a') (osm_key b') \<noteq> None"
    using built_made [of way ?cd elements s0 a' b'] by blast
  have c12: "nonneg_weights (nodes ?B)"
    using built_facts [of ?cd elements s0] nn by blast
  from c1 c2 c3 c4 c5 c6 c7 c8 c9 c10 c11 c12 show ?thesis by (intro conjI)
qed

theorem edge_weight_safe_witness:
  "map_of (osmNodes oneway_road_graph) (show_nat 1) = Some \<lparr>osm_id = 1, lat = 0, lon = 0\<rparr>
   \<and> map_of (osmNodes oneway_road_graph) (show_nat 2) = Some \<lparr>osm_id = 2, lat = 0, lon = 1\<rparr>
   \<and> map_of (nodes oneway_road_graph) (osm_key 1) \<noteq> None
   \<and> map_of (nodes oneway_road_graph) (osm_key 2) \<noteq> None
   \<and> (0::real) * 1000 / 3600 \<le> 0
   \<and> weightOf (addSegment calculateDistance_haversine 0 False (1, 2) oneway_road_graph)
        ''osm_1'' ''osm_2'' = Some Infinity
   \<and> weightOf (addSegment calculateDistance_haversine 0 False (1, 2) oneway_road_graph)
        ''osm_2'' ''osm_1'' = Some Infinity
   \<and> weightOf (addSegment calculateDistance_haversine 36 True (1, 2) oneway_road_graph)
        ''osm_1'' ''osm_2'' = Some (Fin (6371000 * pi / 180 / 10))
   \<and> edgeWeight 100 0 = Infinity
   \<and> edgeWeight_checked 100 0 = Inr Infinity
   \<and> isValidRoadWay [1, 2] [(''highway'', ''primary''), (''oneway'', ''yes'')]
   \<and> getSpeedLimit [(''highway'', ''primary''), (''oneway'', ''yes'')] = 60
   \<and> \<lparr>way_id = 10, way_nodes = [1, 2],
        way_tags = [(''highway'', ''primary''), (''oneway'', ''yes'')]\<rparr>
        \<in> set (obj_values (osmWays oneway_road_graph))
   \<and> (1, 2) \<in> set (zip [1, 2 :: nat] (tl [1, 2]))
   \<and> weightOf oneway_road_graph ''osm_1'' ''osm_2'' = Some (Fin (6371 * pi / 3))
   \<and> segment_weight calculateDistance_haversine (osmNodes oneway_road_graph)
        (obj_values (osmWays oneway_road_graph)) ''osm_1'' ''osm_2'' (Fin (6371 * pi / 3))
   \<and> nonneg_weights (nodes oneway_road_graph)"
proof -
  let ?cd = calculateDistance_haversine
  let ?n1 = "\<lparr>osm_id = 1, lat = 0, lon = 0\<rparr>"
  let ?n2 = "\<lparr>osm_id = 2, lat = 0, lon = 1\<rparr>"
  let ?ts = "[(''highway'', ''primary''), (''oneway'', ''yes'')]"
  let ?way = "\<lparr>way_id = 10, way_nodes = [1, 2], way_tags = ?ts\<rparr>"
  have k: "show_nat 2 = ''2''" "show_nat 1 = ''1''" "osm_key 2 = ''osm_2''" "osm_key 1 = ''osm_1''"
    "show_nat (Suc 0) = ''1''" "osm_key (Suc 0) = ''osm_1''"
    by (simp_all add: eval_obj)
  have h1: "map_of (osmNodes oneway_road_graph) (show_nat 1) = Some ?n1"
    and h2: "map_of (osmNodes oneway_road_graph) (show_nat 2) = Some ?n2"
    by (simp_all add: k oneway_road_graph_osm)
  have h3: "map_of (nodes oneway_road_graph) (osm_key 1) \<noteq> None"
    and h4: "map_of (nodes oneway_road_graph) (osm_key 2) \<noteq> None"
    by (simp_all add: k oneway_road_graph_nodes)
  have h5: "(0::real) * 1000 / 3600 \<le> 0" by simp
  have h6: "isValidRoadWay [1, 2] ?ts"
    by (simp add: isValidRoadWay_def tag_def validRoadTypes_def)
  have h7: "?way \<in> set (obj_values (osmWays oneway_road_graph))"
    by (simp add: oneway_road_graph_osm obj_values_def)
  have h8: "(1, 2) \<in> set (zip [1, 2 :: nat] (tl [1, 2]))" by simp
  have h9: "weightOf oneway_road_graph ''osm_1'' ''osm_2'' = Some (Fin (6371 * pi / 3))"
    by (simp add: weightOf_def oneway_road_graph_nodes)
  have g: "getSpeedLimit ?ts = 60"
    by (simp add: getSpeedLimit_def tag_def DEFAULT_SPEEDS_def Let_def)
  have d: "?cd (osm_point \<lparr>osm_id = i, lat = 0, lon = 0\<rparr>)
               (osm_point \<lparr>osm_id = j, lat = 0, lon = 1\<rparr>) = 6371000 * pi / 180" for i j
    by (simp add: osm_point_def haversine_equator_degree)
  note z = edge_weight_safe [where s = oneway_road_graph and a = 1 and b = 2 and na = ?n1
      and nb = ?n2 and speedLimit = 0 and isOneWay = False and distance = 100
      and ns = "[1, 2]" and ts = ?ts and elements = oneway_data and ?s0.0 = newPathFinder
      and x = "''osm_1''" and y = "''osm_2''" and w = "Fin (6371 * pi / 3)"
      and way = ?way and a' = 1 and b' = 2, folded oneway_road_graph_def]
  note p = edge_weight_safe [where s = oneway_road_graph and a = 1 and b = 2 and na = ?n1
      and nb = ?n2 and speedLimit = 36 and isOneWay = True, THEN conjunct1]
  have pre: "map_of (osmNodes oneway_road_graph) (show_nat 1) = Some ?n1
      \<and> map_of (osmNodes oneway_road_graph) (show_nat 2) = Some ?n2
      \<and> map_of (nodes oneway_road_graph) (osm_key 1) \<noteq> None
      \<and> map_of (nodes oneway_road_graph) (osm_key 2) \<noteq> None"
    using h1 h2 h3 h4 by (intro conjI)
  note zc = z [THEN conjunct1, THEN mp, OF pre, THEN conjunct2, THEN conjunct2, THEN mp, OF h5]
  have r1: "weightOf (addSegment ?cd 0 False (1, 2) oneway_road_graph) ''osm_1'' ''osm_2''
        = Some Infinity"
    using zc [THEN conjunct1] by (simp add: k)
  have r2: "weightOf (addSegment ?cd 0 False (1, 2) oneway_road_graph) ''osm_2'' ''osm_1''
        = Some Infinity"
    using zc [THEN conjunct2] by (simp add: k)
  have r3: "weightOf (addSegment ?cd 36 True (1, 2) oneway_road_graph) ''osm_1'' ''osm_2''
        = Some (Fin (6371000 * pi / 180 / 10))"
    using p [THEN mp, OF pre, THEN conjunct1] by (simp add: k d edgeWeight_def)
  have r4: "edgeWeight 100 0 = Infinity" and r5: "edgeWeight_checked 100 0 = Inr Infinity"
    using z h5 by simp_all
  have r6: "segment_weight ?cd (osmNodes oneway_road_graph)
        (obj_values (osmWays oneway_road_graph)) ''osm_1'' ''osm_2'' (Fin (6371 * pi / 3))"
    using z h9 by blast
  have r7: "nonneg_weights (nodes oneway_road_graph)" using z by blast
  from h1 h2 h3 h4 h5 r1 r2 r3 r4 r5 h6 g h7 h8 h9 r6 r7 show ?thesis by (intro conjI)
qed

section \<open>Properties of one-way handling\<close>

lemma oneway_graph_nodes:
  "nodes oneway_graph =
     [(''osm_1'', \<lparr>ident = ''osm_1'', point = \<lparr>latitude = 0, longitude = 0\<rparr>,
                  neighbors = [(''osm_2'', Fin (3 / 50))]\<rparr>),
      (''osm_2'', \<lparr>ident = ''osm_2'', point = \<lparr>latitude = 0, longitude = 1\<rparr>,
                  neighbors = []\<rparr>)]"
  by (simp add: oneway_graph_def oneway_data_def eval_obj eval_build)

lemma oneway_graph_osmNodes:
  "osmNodes oneway_graph =
     [(''1'', \<lparr>osm_id = 1, lat = 0, lon = 0\<rparr>), (''2'', \<lparr>osm_id = 2, lat = 0, lon = 1\<rparr>)]"
  by (simp add: oneway_graph_def oneway_data_def eval_obj eval_build)

lemma motorway_helper_graph_nodes:
  "motorway_helper_graph =
     [(''1'', \<lparr>r_ident = ''1'', r_point = \<lparr>latitude = 0, longitude = 0\<rparr>, r_neighbors = [''2'']\<rparr>),
      (''2'', \<lparr>r_ident = ''2'', r_point = \<lparr>latitude = 0, longitude = 1\<rparr>, r_neighbors = [''1'']\<rparr>)]"
  by (simp add: motorway_helper_graph_def motorway_data_def newHelperFinder_def eval_obj eval_helper)

lemma isOneWayStreet_iff:
  "isOneWayStreet ts roadType =
     (map_of ts ''oneway'' = Some ''yes'' \<or> map_of ts ''junction'' = Some ''roundabout''
      \<or> roadType = ''motorway'' \<or> roadType = ''motorway_link'')"
  unfolding isOneWayStreet_def ROAD_TYPES_MOTORWAY_def by (simp add: eq_commute [of roadType])

text \<open>
  C6, as stated, at the helper-based router: a motorway without a \<open>oneway\<close> tag is one-way by
  the claim's criterion, yet \<open>buildGraph\<close> connects its nodes in both directions.
\<close>

theorem helper_motorway_counterexample:
  "isOneWayStreet [(''highway'', ''motorway'')] ''motorway''
   \<and> h_nodes (processOverpassData motorway_data newHelperFinder) =
     [(''1'', \<lparr>r_ident = ''1'', r_point = \<lparr>latitude = 0, longitude = 0\<rparr>, r_neighbors = [''2'']\<rparr>),
      (''2'', \<lparr>r_ident = ''2'', r_point = \<lparr>latitude = 0, longitude = 1\<rparr>, r_neighbors = [''1'']\<rparr>)]"
  using motorway_helper_graph_nodes
  by (simp add: motorway_helper_graph_def isOneWayStreet_def ROAD_TYPES_MOTORWAY_def)

text \<open>
  C6, amended. In the weighted router a way is one-way exactly when it is tagged
  \<open>oneway = yes\<close>, or tagged \<open>junction = roundabout\<close>, or its class is \<open>motorway\<close> or
  \<open>motorway_link\<close>; every segment of a way is added with that direction. For a segment
  between two known nodes a one-way step sets the weight of the forward edge and changes no
  other edge, and a two-way step sets the forward and the backward edge to the same weight and
  changes no other edge. In the helper-based router a way is one-way exactly when it is
  tagged \<open>oneway = yes\<close>; a one-way step links the first node to the second and nothing
  else, a two-way step links them in both directions.
\<close>

theorem oneway_edges:
  assumes "map_of (osmNodes s) (show_nat a) = Some na" "map_of (osmNodes s) (show_nat b) = Some nb"
    and "map_of (nodes s) (osm_key a) = Some ga" "map_of (nodes s) (osm_key b) = Some gb"
    and "map_of g (show_nat a) = Some ra" "map_of g (show_nat b) = Some rb"
  shows "isOneWayStreet ts roadType =
           (map_of ts ''oneway'' = Some ''yes'' \<or> map_of ts ''junction'' = Some ''roundabout''
            \<or> roadType = ''motorway'' \<or> roadType = ''motorway_link'')
       \<and> (tag (way_tags way) ''highway'' = Some roadType \<longrightarrow>
            addWay calculateDistance way s =
              fold (addSegment calculateDistance (getSpeedLimit (way_tags way))
                      (isOneWayStreet (way_tags way) roadType))
                   (zip (way_nodes way) (tl (way_nodes way))) s)
       \<and> weightOf (addSegment calculateDistance speed True (a, b) s) x y =
            (if x = osm_key a \<and> y = osm_key b
             then Some (edgeWeight (calculateDistance (osm_point na) (osm_point nb)) speed)
             else weightOf s x y)
       \<and> weightOf (addSegment calculateDistance speed False (a, b) s) x y =
            (if (x = osm_key a \<and> y = osm_key b) \<or> (x = osm_key b \<and> y = osm_key a)
             then Some (edgeWeight (calculateDistance (osm_point na) (osm_point nb)) speed)
             else weightOf s x y)
       \<and> connectWay hway g =
            fold (connectSegment (map_of (ow_tags hway) ''oneway'' = Some ''yes''))
                 (zip (ow_nodes hway) (tl (ow_nodes hway))) g
       \<and> linked (connectSegment True (a, b) g) x' y' =
            (linked g x' y' \<or> (x' = show_nat a \<and> y' = show_nat b))
       \<and> linked (connectSegment False (a, b) g) x' y' =
            (linked g x' y' \<or> (x' = show_nat a \<and> y' = show_nat b)
             \<or> (x' = show_nat b \<and> y' = show_nat a))"
proof -
  have c2: "tag (way_tags way) ''highway'' = Some roadType \<longrightarrow>
            addWay calculateDistance way s =
              fold (addSegment calculateDistance (getSpeedLimit (way_tags way))
                      (isOneWayStreet (way_tags way) roadType))
                   (zip (way_nodes way) (tl (way_nodes way))) s"
    by (simp add: addWay_def)
  have c5: "connectWay hway g =
            fold (connectSegment (map_of (ow_tags hway) ''oneway'' = Some ''yes''))
                 (zip (ow_nodes hway) (tl (ow_nodes hway))) g"
    by (simp add: connectWay_def)
  note c1 = isOneWayStreet_iff [of ts roadType]
  note c3 = weightOf_addSegment_oneway [OF assms(1-4), of calculateDistance speed x y]
  note c4 = weightOf_addSegment_twoway [OF assms(1-4), of calculateDistance speed x y]
  note c6 = linked_connectSegment_oneway [OF assms(5,6), of x' y']
  note c7 = linked_connectSegment_twoway [OF assms(5,6), of x' y']
  from c1 c2 c3 c4 c5 c6 c7 show ?thesis by (intro conjI)
qed

theorem oneway_edges_witness:
  "map_of (osmNodes oneway_graph) (show_nat 2) = Some \<lparr>osm_id = 2, lat = 0, lon = 1\<rparr>
   \<and> map_of (osmNodes oneway_graph) (show_nat 1) = Some \<lparr>osm_id = 1, lat = 0, lon = 0\<rparr>
   \<and> map_of (nodes oneway_graph) (osm_key 2) =
        Some \<lparr>ident = ''osm_2'', point = \<lparr>latitude = 0, longitude = 1\<rparr>, neighbors = []\<rparr>
   \<and> map_of (nodes oneway_graph) (osm_key 1) =
        Some \<lparr>ident = ''osm_1'', point = \<lparr>latitude = 0, longitude = 0\<rparr>,
              neighbors = [(''osm_2'', Fin (3 / 50))]\<rparr>
   \<and> map_of motorway_helper_graph (show_nat 2) =
        Some \<lparr>r_ident = ''2'', r_point = \<lparr>latitude = 0, longitude = 1\<rparr>, r_neighbors = [''1'']\<rparr>
   \<and> map_of motorway_helper_graph (show_nat 1) =
        Some \<lparr>r_ident = ''1'', r_point = \<lparr>latitude = 0, longitude = 0\<rparr>, r_neighbors = [''2'']\<rparr>
   \<and> isOneWayStreet [(''junction'', ''roundabout'')] ''primary''
   \<and> \<not> isOneWayStreet [(''oneway'', ''no'')] ''primary''
   \<and> weightOf oneway_graph ''osm_2'' ''osm_1'' = None
   \<and> weightOf (addSegment flat_distance 30 True (2, 1) oneway_graph) ''osm_2'' ''osm_1'' =
        Some (Fin (3 / 25))
   \<and> weightOf (addSegment flat_distance 30 True (2, 1) oneway_graph) ''osm_1'' ''osm_2'' =
        Some (Fin (3 / 50))
   \<and> weightOf (addSegment flat_distance 30 False (2, 1) oneway_graph) ''osm_2'' ''osm_1'' =
        Some (Fin (3 / 25))
   \<and> weightOf (addSegment flat_distance 30 False (2, 1) oneway_graph) ''osm_1'' ''osm_2'' =
        Some (Fin (3 / 25))
   \<and> linked (connectSegment True (2, 1) motorway_helper_graph) ''2'' ''1''"
proof -
  have k: "show_nat 2 = ''2''" "show_nat 1 = ''1''" "osm_key 2 = ''osm_2''" "osm_key 1 = ''osm_1''"
    "show_nat (Suc 0) = ''1''" "osm_key (Suc 0) = ''osm_1''"
    by (simp_all add: eval_obj)
  have h1: "map_of (osmNodes oneway_graph) (show_nat 2) = Some \<lparr>osm_id = 2, lat = 0, lon = 1\<rparr>"
    and h2: "map_of (osmNodes oneway_graph) (show_nat 1) = Some \<lparr>osm_id = 1, lat = 0, lon = 0\<rparr>"
    by (simp_all add: k oneway_graph_osmNodes)
  have h3: "map_of (nodes oneway_graph) (osm_key 2) =
        Some \<lparr>ident = ''osm_2'', point = \<lparr>latitude = 0, longitude = 1\<rparr>, neighbors = []\<rparr>"
    and h4: "map_of (nodes oneway_graph) (osm_key 1) =
        Some \<lparr>ident = ''osm_1'', point = \<lparr>latitude = 0, longitude = 0\<rparr>,
              neighbors = [(''osm_2'', Fin (3 / 50))]\<rparr>"
    by (simp_all add: k oneway_graph_nodes)
  have h5: "map_of motorway_helper_graph (show_nat 2) =
        Some \<lparr>r_ident = ''2'', r_point = \<lparr>latitude = 0, longitude = 1\<rparr>, r_neighbors = [''1'']\<rparr>"
    and h6: "map_of motorway_helper_graph (show_nat 1) =
        Some \<lparr>r_ident = ''1'', r_point = \<lparr>latitude = 0, longitude = 0\<rparr>, r_neighbors = [''2'']\<rparr>"
    by (simp_all add: k motorway_helper_graph_nodes)
  have w0: "weightOf oneway_graph ''osm_2'' ''osm_1'' = None"
    and w1: "weightOf oneway_graph ''osm_1'' ''osm_2'' = Some (Fin (3 / 50))"
    by (simp_all add: weightOf_def oneway_graph_nodes)
  have ew: "edgeWeight (flat_distance (osm_point \<lparr>osm_id = i, lat = 0, lon = 1\<rparr>)
                                       (osm_point \<lparr>osm_id = j, lat = 0, lon = 0\<rparr>)) 30 = Fin (3 / 25)"
    for i j
    by (simp add: edgeWeight_def flat_distance_def osm_point_def Let_def)
  have r1: "isOneWayStreet [(''junction'', ''roundabout'')] ''primary''"
    using oneway_edges [where ts = "[(''junction'', ''roundabout'')]" and roadType = "''primary''",
            OF h1 h2 h3 h4 h5 h6, THEN conjunct1]
    by simp
  have r2: "\<not> isOneWayStreet [(''oneway'', ''no'')] ''primary''"
    using oneway_edges [where ts = "[(''oneway'', ''no'')]" and roadType = "''primary''",
            OF h1 h2 h3 h4 h5 h6, THEN conjunct1]
    by simp
  note p = oneway_edges [where calculateDistance = flat_distance and speed = 30
             and x = "''osm_2''" and y = "''osm_1''" and x' = "''2''" and y' = "''1''",
             OF h1 h2 h3 h4 h5 h6]
  note q = oneway_edges [where calculateDistance = flat_distance and speed = 30
             and x = "''osm_1''" and y = "''osm_2''", OF h1 h2 h3 h4 h5 h6]
  have a1: "weightOf (addSegment flat_distance 30 True (2, 1) oneway_graph) ''osm_2'' ''osm_1'' =
        Some (Fin (3 / 25))"
    using p [THEN conjunct2, THEN conjunct2, THEN conjunct1] by (simp add: k ew)
  have a2: "weightOf (addSegment flat_distance 30 True (2, 1) oneway_graph) ''osm_1'' ''osm_2'' =
        Some (Fin (3 / 50))"
    using q [THEN conjunct2, THEN conjunct2, THEN conjunct1] by (simp add: k w1)
  have a3: "weightOf (addSegment flat_distance 30 False (2, 1) oneway_graph) ''osm_2'' ''osm_1'' =
        Some (Fin (3 / 25))"
    using p [THEN conjunct2, THEN conjunct2, THEN conjunct2, THEN conjunct1] by (simp add: k ew)
  have a4: "weightOf (addSegment flat_distance 30 False (2, 1) oneway_graph) ''osm_1'' ''osm_2'' =
        Some (Fin (3 / 25))"
    using q [THEN conjunct2, THEN conjunct2, THEN conjunct2, THEN conjunct1] by (simp add: k ew)
  have a5: "linked (connectSegment True (2, 1) motorway_helper_graph) ''2'' ''1''"
    using p [THEN conjunct2, THEN conjunct2, THEN conjunct2, THEN conjunct2, THEN conjunct2,
             THEN conjunct1]
    by (simp add: k)
  from h1 h2 h3 h4 h5 h6 r1 r2 w0 a1 a2 a3 a4 a5 show ?thesis by (intro conjI)
qed














section \<open>Properties of the connectivity pass\<close>




section \<open>Properties of the neighbour maps\<close>






















section \<open>Properties of the nearest-node search\<close>




end
